theory Spec2Isabelle
  imports Main "HOL-Library.Word"
begin

unbundle bit_operations_syntax

section \<open>The asynchronous resource graph\<close>

subsection \<open>AsyncResourceFlags\<close>

text \<open>
  The flags of a node are a JavaScript number that is only ever combined with the
  bitwise operators, which act on 32-bit integers.
\<close>

type_synonym flags = "32 word"

definition INIT :: flags where
  "INIT = 0"

definition PRE_EXECUTION :: flags where
  "PRE_EXECUTION = push_bit 0 1"

definition POST_EXECUTION :: flags where
  "POST_EXECUTION = push_bit 1 1"

definition RESOLVED :: flags where
  "RESOLVED = push_bit 2 1"

definition ABORTED :: flags where
  "ABORTED = push_bit 3 1"

definition FINALIZED :: flags where
  "FINALIZED = POST_EXECUTION OR RESOLVED"

subsection \<open>AsyncResourceNode\<close>

text \<open>
  Nodes are objects that are shared and mutated in place, so they live in a heap and
  are named by their reference. A JavaScript reference never dangles: the heap is a
  total function. The two Map fields keep their entries in insertion order, which is
  the order in which \<open>values()\<close> yields them.
\<close>

type_synonym addr = nat
type_synonym oref = nat
type_synonym frame = string

record node =
  asyncId :: nat
  fiberId :: nat
  type :: "string option"
  active :: bool
  frame :: "frame option"
  executionOrigin :: "addr option"
  triggerOrigin :: "addr option"
  executionTargets :: "(nat \<times> addr) list"
  triggerTargets :: "(nat \<times> addr) list"
  flags :: flags
  notifyObserver :: "oref option"

type_synonym node_heap = "addr \<Rightarrow> node"

text \<open>The constructor of AsyncResourceNode.\<close>

definition new_node :: "nat \<Rightarrow> nat \<Rightarrow> string option \<Rightarrow> frame option \<Rightarrow> node" where
  "new_node fid aid ty fr =
     \<lparr> asyncId = aid, fiberId = fid, type = ty, active = True, frame = fr,
       executionOrigin = None, triggerOrigin = None,
       executionTargets = [], triggerTargets = [],
       flags = INIT, notifyObserver = None \<rparr>"

text \<open>\<open>Map.prototype.values()\<close>, \<open>get\<close> and \<open>set\<close> on an insertion-ordered Map.\<close>

definition map_values :: "(nat \<times> addr) list \<Rightarrow> addr list" where
  "map_values m = map snd m"

definition map_get :: "(nat \<times> addr) list \<Rightarrow> nat \<Rightarrow> addr option" where
  "map_get m k = map_of m k"

fun map_set :: "(nat \<times> addr) list \<Rightarrow> nat \<Rightarrow> addr \<Rightarrow> (nat \<times> addr) list" where
  "map_set [] k v = [(k, v)]"
| "map_set ((k', v') # m) k v = (if k' = k then (k, v) # m else (k', v') # map_set m k v)"

subsection \<open>Taint propagation\<close>

text \<open>
  taintAsyncResourceGraph recurses through both target maps. The recursion need not
  end (the graph may be cyclic), so the model carries the depth of recursion it may
  still use and returns None when that is used up.
\<close>

fun taintAsyncResourceGraph :: "nat \<Rightarrow> addr \<Rightarrow> flags \<Rightarrow> flags \<Rightarrow> node_heap \<Rightarrow> node_heap option"
  and taintTargets :: "nat \<Rightarrow> addr list \<Rightarrow> flags \<Rightarrow> flags \<Rightarrow> node_heap \<Rightarrow> node_heap option"
where
  "taintAsyncResourceGraph 0 a msk fl h = None"
| "taintAsyncResourceGraph (Suc k) a msk fl h =
     (if (flags (h a) AND msk) AND fl = 0 then
        (let h1 = h(a := (h a)\<lparr>flags := flags (h a) OR fl\<rparr>) in
         case taintTargets k (map_values (executionTargets (h1 a))) msk fl h1 of
           None \<Rightarrow> None
         | Some h2 \<Rightarrow> taintTargets k (map_values (triggerTargets (h2 a))) msk fl h2)
      else Some h)"
| "taintTargets k [] msk fl h = Some h"
| "taintTargets k (t # ts) msk fl h =
     (case taintAsyncResourceGraph k t msk fl h of
        None \<Rightarrow> None
      | Some h' \<Rightarrow> taintTargets k ts msk fl h')"

subsection \<open>Array helpers of the runtime\<close>

text \<open>
  \<open>Array.prototype.indexOf\<close> returns -1 for a missing element, and
  \<open>Array.prototype.splice(start, deleteCount)\<close> counts a negative start from the
  end of the array; both are written out as ECMAScript defines them.
\<close>

fun indexOf :: "'a list \<Rightarrow> 'a \<Rightarrow> int" where
  "indexOf [] x = - 1"
| "indexOf (y # ys) x =
     (if y = x then 0 else (let i = indexOf ys x in if i < 0 then - 1 else i + 1))"

definition splice :: "'a list \<Rightarrow> int \<Rightarrow> int \<Rightarrow> 'a list" where
  "splice xs start deleteCount =
     (let len = int (length xs);
          actualStart = (if start < 0 then max (len + start) 0 else min start len);
          actualDeleteCount = min (max deleteCount 0) (len - actualStart)
      in take (nat actualStart) xs @ drop (nat (actualStart + actualDeleteCount)) xs)"

text \<open>A Set keeps insertion order; adding a member again does not move it.\<close>

definition set_add :: "addr list \<Rightarrow> addr \<Rightarrow> addr list" where
  "set_add xs x = (if x \<in> set xs then xs else xs @ [x])"

definition set_delete :: "addr list \<Rightarrow> addr \<Rightarrow> addr list" where
  "set_delete xs x = removeAll x xs"

subsection \<open>Errors, promises and abort signals\<close>

datatype FiberErrorCode =
    FOREIGN_ASYNC_TRIGGER
  | PARENT_ASYNC_TRIGGER
  | FOREIGN_ASYNC_ABORTED
  | FIBER_ABORTED
  | FIBER_STALL

type_synonym fref = nat
type_synonym wref = nat
type_synonym sref = nat
type_synonym rref = nat
type_synonym val = nat

text \<open>
  What can be thrown or be a rejection reason: a FiberError (code, fiber, node), the
  TypeError of \<open>observe\<close>, or any other value (an abort reason, a user's exception).
\<close>

datatype error =
    FiberError FiberErrorCode fref addr
  | TypeError
  | Reason val

datatype 'a outcome = Return 'a | Throw error

text \<open>
  The state of a JavaScript promise. Its resolving functions settle it at their first
  call only; every later call of either does nothing.
\<close>

datatype promise = Pending | Fulfilled val | Rejected error

definition promise_resolve :: "val \<Rightarrow> promise \<Rightarrow> promise" where
  "promise_resolve v p = (case p of Pending \<Rightarrow> Fulfilled v | _ \<Rightarrow> p)"

definition promise_reject :: "error \<Rightarrow> promise \<Rightarrow> promise" where
  "promise_reject e p = (case p of Pending \<Rightarrow> Rejected e | _ \<Rightarrow> p)"

record AbortSignal =
  aborted :: bool
  reason :: error

subsection \<open>AsyncResourceFiber and the module state\<close>

text \<open>
  The fields of a fiber that share a name with a field of a node carry the suffix
  \<open>_f\<close>.
\<close>

record AsyncResourceFiber =
  fiberId_f :: nat
  root :: addr
  active_f :: bool
  parent :: "fref option"
  frame_f :: "frame option"

text \<open>
  The closure of one call of fiberWatchdog: the variables its inner functions share,
  and the fiberId of the AsyncResourceObserver it creates. That observer is the only
  one the closure has, so a node's notifyObserver names the closure.
\<close>

record watchdog =
  fiber_w :: fref
  abort :: "sref option"
  parentFiberIds_w :: "nat list"
  pendingExecutionTargets :: "addr list"
  watchdogImmediate :: bool
  watchdogResult :: promise
  fiberId_o :: nat

text \<open>
  The module's variables (fiberStack, _fiberIdx, _asyncResourceGraphHookActive, whether
  asyncResourceGraphHook is enabled), the heaps of its objects with their allocation
  pointers, the fiberRef property of the runtime's raw resources, and what the runtime
  reports as the current execution context.
\<close>

record sys =
  nodes :: node_heap
  next_node :: addr
  fibers :: "fref \<Rightarrow> AsyncResourceFiber"
  next_fiber :: fref
  fiberStack :: "fref list"
  fiberIdx :: nat
  hookEnabled :: bool
  hookActive :: bool
  watchdogs :: "wref \<Rightarrow> watchdog"
  next_watchdog :: wref
  signals :: "sref \<Rightarrow> AbortSignal"
  fiberRef :: "rref \<Rightarrow> addr option"
  executionAsyncResource :: rref
  executionAsyncId :: nat

subsection \<open>getFiber, and the methods of AsyncResourceFiber\<close>

definition getFiber :: "sys \<Rightarrow> fref option" where
  "getFiber s = find (\<lambda>f. active_f (fibers s f)) (rev (fiberStack s))"

definition AsyncResourceFiber_new :: "frame option \<Rightarrow> sys \<Rightarrow> fref \<times> sys" where
  "AsyncResourceFiber_new fr s =
     (let f = next_fiber s;
          fid = fiberIdx s;
          s1 = s\<lparr>next_fiber := f + 1, fiberIdx := fid + 1\<rparr>;
          res = executionAsyncResource s1;
          (rt, s2) =
            (case fiberRef s1 res of
               Some r \<Rightarrow> (r, s1)
             | None \<Rightarrow>
                 (let r = next_node s1
                  in (r, s1\<lparr>nodes := (nodes s1)(r := new_node fid (executionAsyncId s1) None fr),
                            next_node := r + 1,
                            fiberRef := (fiberRef s1)(res \<mapsto> r)\<rparr>)));
          fb = \<lparr>fiberId_f = fid, root = rt, active_f = False, parent = getFiber s2, frame_f = fr\<rparr>
      in (f, s2\<lparr>fibers := (fibers s2)(f := fb)\<rparr>))"

definition Fiber_enable :: "fref \<Rightarrow> sys \<Rightarrow> sys" where
  "Fiber_enable f s =
     (if \<not> active_f (fibers s f) then
        (let fb = fibers s f;
             s1 = s\<lparr>nodes := (nodes s)(root fb := (nodes s (root fb))\<lparr>fiberId := fiberId_f fb\<rparr>)\<rparr>;
             s2 = s1\<lparr>fibers := (fibers s1)(f := fb\<lparr>active_f := True\<rparr>)\<rparr>;
             s3 = s2\<lparr>fiberStack := fiberStack s2 @ [f]\<rparr>
         in s3\<lparr>hookEnabled := True\<rparr>)
      else s)"

definition Fiber_disable :: "fref \<Rightarrow> sys \<Rightarrow> sys" where
  "Fiber_disable f s =
     (let s1 = s\<lparr>fiberStack := splice (fiberStack s) (indexOf (fiberStack s) f) 1\<rparr>;
          s2 = (if fiberStack s1 = [] then s1\<lparr>hookEnabled := False\<rparr> else s1);
          fid = (case getFiber s2 of
                   None \<Rightarrow> 0
                 | Some g \<Rightarrow> (if fiberId_f (fibers s2 g) = 0 then 0 else fiberId_f (fibers s2 g)));
          rt = root (fibers s2 f);
          s3 = s2\<lparr>nodes := (nodes s2)(rt := (nodes s2 rt)\<lparr>fiberId := fid\<rparr>)\<rparr>
      in s3\<lparr>fibers := (fibers s3)(f := (fibers s3 f)\<lparr>active_f := False\<rparr>)\<rparr>)"

text \<open>
  The getter parentFiberIds follows the parent references until it meets null. The
  model carries the number of steps it may still take.
\<close>

fun parentFiberIds :: "nat \<Rightarrow> (fref \<Rightarrow> AsyncResourceFiber) \<Rightarrow> fref \<Rightarrow> nat list option" where
  "parentFiberIds 0 fs f = (case parent (fs f) of None \<Rightarrow> Some [] | Some p \<Rightarrow> None)"
| "parentFiberIds (Suc k) fs f =
     (case parent (fs f) of
        None \<Rightarrow> Some []
      | Some p \<Rightarrow> (case parentFiberIds k fs p of
                    None \<Rightarrow> None
                  | Some ids \<Rightarrow> Some (fiberId_f (fs p) # ids)))"

definition Fiber_executionTargets :: "sys \<Rightarrow> fref \<Rightarrow> addr list" where
  "Fiber_executionTargets s f =
     filter (\<lambda>a. fiberId (nodes s a) = fiberId_f (fibers s f))
       (map_values (executionTargets (nodes s (root (fibers s f)))))"

subsection \<open>promiseWithReject\<close>

text \<open>
  promiseWithReject wraps the user's promise in a new one and hands out the new
  promise's reject function. The new promise is the field watchdogResult of the
  closure. The two callbacks it registers on the user's promise run when that promise
  settles; onSettled is the callback fiberWatchdog passes, which clears the immediate.
\<close>

definition onSettled :: "wref \<Rightarrow> sys \<Rightarrow> sys" where
  "onSettled w s =
     (if watchdogImmediate (watchdogs s w)
      then s\<lparr>watchdogs := (watchdogs s)(w := (watchdogs s w)\<lparr>watchdogImmediate := False\<rparr>)\<rparr>
      else s)"

text \<open>
  The runtime reports the settling of a promise to an enabled hook at once: the call
  of resolve or reject that settles a pending promise calls the hook's promiseResolve
  callback with the asyncId of that promise, before it returns, also when it is made
  inside another callback of the hook. The wrapped promise has no node:
  promiseWithReject creates it after fiberWatchdog has cleared the active flag of the
  fiber's root, which is the node of the execution context, and _onExecute returns at
  once on an inactive node. So the callback finds no node for it, and all it does is
  what its finally block does: it leaves _asyncResourceGraphHookActive false. A call
  of resolve or reject on a settled promise does nothing, and calls no callback.
\<close>

definition promiseResolve_reentered :: "sys \<Rightarrow> sys" where
  "promiseResolve_reentered s = (if hookEnabled s then s\<lparr>hookActive := False\<rparr> else s)"

definition watchdogResult_reject :: "wref \<Rightarrow> error \<Rightarrow> sys \<Rightarrow> sys" where
  "watchdogResult_reject w e s =
     (let p = watchdogResult (watchdogs s w);
          s1 = s\<lparr>watchdogs := (watchdogs s)(w := (watchdogs s w)\<lparr>watchdogResult := promise_reject e p\<rparr>)\<rparr>
      in if p = Pending then promiseResolve_reentered s1 else s1)"

definition watchdogResult_resolve :: "wref \<Rightarrow> val \<Rightarrow> sys \<Rightarrow> sys" where
  "watchdogResult_resolve w v s =
     (let p = watchdogResult (watchdogs s w);
          s1 = s\<lparr>watchdogs := (watchdogs s)(w := (watchdogs s w)\<lparr>watchdogResult := promise_resolve v p\<rparr>)\<rparr>
      in if p = Pending then promiseResolve_reentered s1 else s1)"

definition promise_onFulfilled :: "wref \<Rightarrow> val \<Rightarrow> sys \<Rightarrow> sys" where
  "promise_onFulfilled w result s = onSettled w (watchdogResult_resolve w result s)"

definition promise_onRejected :: "wref \<Rightarrow> error \<Rightarrow> sys \<Rightarrow> sys" where
  "promise_onRejected w rsn s = onSettled w (watchdogResult_reject w rsn s)"

subsection \<open>The inner functions of fiberWatchdog\<close>

definition signal_aborted :: "sys \<Rightarrow> sref option \<Rightarrow> bool" where
  "signal_aborted s ab = (case ab of None \<Rightarrow> False | Some sg \<Rightarrow> aborted (signals s sg))"

definition lastExecutionTarget :: "wref \<Rightarrow> sys \<Rightarrow> addr" where
  "lastExecutionTarget w s =
     (let wd = watchdogs s w in
      if pendingExecutionTargets wd \<noteq> [] then last (pendingExecutionTargets wd)
      else (let targets = Fiber_executionTargets s (fiber_w wd)
            in if targets \<noteq> [] then last targets else root (fibers s (fiber_w wd))))"

text \<open>
  assertFiberError reads _asyncResourceGraphHookActive after the call of reject. When
  that call has settled the wrapped promise, the promiseResolve callback has run in
  between and the flag is false.
\<close>

definition assertFiberError :: "wref \<Rightarrow> error \<Rightarrow> sys \<Rightarrow> unit outcome \<times> sys" where
  "assertFiberError w e s =
     (let s1 = watchdogResult_reject w e s
      in if hookActive s1 then (Throw e, s1) else (Return (), s1))"

definition assertFiberAbort :: "wref \<Rightarrow> addr \<Rightarrow> sys \<Rightarrow> unit outcome \<times> sys" where
  "assertFiberAbort w n s =
     (let wd = watchdogs s w; nd = nodes s n in
      if flags nd AND ABORTED \<noteq> 0 then
        assertFiberError w (FiberError FIBER_ABORTED (fiber_w wd) n) s
      else if (case triggerOrigin nd of
                 None \<Rightarrow> False
               | Some t \<Rightarrow> flags (nodes s t) AND ABORTED \<noteq> 0) then
        (case triggerOrigin nd of
           None \<Rightarrow> (Return (), s)
         | Some t \<Rightarrow>
             if fiberId (nodes s t) = fiberId_f (fibers s (fiber_w wd))
             then assertFiberError w (FiberError FIBER_ABORTED (fiber_w wd) t) s
             else assertFiberError w (FiberError FOREIGN_ASYNC_ABORTED (fiber_w wd) t) s)
      else if signal_aborted s (abort wd) then
        (case abort wd of
           None \<Rightarrow> (Return (), s)
         | Some sg \<Rightarrow>
             (case assertFiberError w (reason (signals s sg)) s of
                (Throw e, s1) \<Rightarrow> (Throw e, s1)
              | (Return u, s1) \<Rightarrow>
                  if hookActive s1 \<and> aborted (signals s1 sg)
                  then (Throw (reason (signals s1 sg)), s1)
                  else (Return (), s1)))
      else (Return (), s))"

definition assertFiberOwnership :: "wref \<Rightarrow> addr \<Rightarrow> sys \<Rightarrow> unit outcome \<times> sys" where
  "assertFiberOwnership w n s =
     (let wd = watchdogs s w; fb = fibers s (fiber_w wd); nd = nodes s n in
      if fiberId nd \<noteq> fiberId_f fb \<or> triggerOrigin nd = None then (Return (), s)
      else if triggerOrigin nd = Some (root fb) then (Return (), s)
      else
        (case triggerOrigin nd of
           None \<Rightarrow> (Return (), s)
         | Some t \<Rightarrow>
             if fiberId (nodes s t) = fiberId nd then (Return (), s)
             else
               (let isParentFiberTrigger = (fiberId (nodes s t) \<in> set (parentFiberIds_w wd)) in
                if \<not> isParentFiberTrigger
                then assertFiberError w (FiberError FOREIGN_ASYNC_TRIGGER (fiber_w wd) n) s
                else assertFiberError w (FiberError PARENT_ASYNC_TRIGGER (fiber_w wd) n) s)))"

definition stallWatchdog :: "wref \<Rightarrow> sys \<Rightarrow> sys" where
  "stallWatchdog w s =
     (let s1 = s\<lparr>watchdogs := (watchdogs s)(w := (watchdogs s w)\<lparr>watchdogImmediate := False\<rparr>)\<rparr>;
          wd = watchdogs s1 w in
      if signal_aborted s1 (abort wd) then s1
      else
        (let hasAsyncIO =
               list_ex (\<lambda>a. flags (nodes s1 a) AND FINALIZED = 0 \<and> type (nodes s1 a) \<noteq> Some ''PROMISE'')
                 (pendingExecutionTargets wd)
         in if \<not> hasAsyncIO
            then watchdogResult_reject w (FiberError FIBER_STALL (fiber_w wd) (lastExecutionTarget w s1)) s1
            else s1))"

definition scheduleCheck :: "wref \<Rightarrow> sys \<Rightarrow> sys" where
  "scheduleCheck w s =
     (if watchdogImmediate (watchdogs s w) then s
      else s\<lparr>watchdogs := (watchdogs s)(w := (watchdogs s w)\<lparr>watchdogImmediate := True\<rparr>)\<rparr>)"

text \<open>The listener fiberWatchdog registers for the abort event of its signal.\<close>

definition abort_listener :: "nat \<Rightarrow> wref \<Rightarrow> sys \<Rightarrow> sys option" where
  "abort_listener k w s =
     (case taintAsyncResourceGraph k (root (fibers s (fiber_w (watchdogs s w)))) FINALIZED ABORTED (nodes s) of
        None \<Rightarrow> None
      | Some h \<Rightarrow> Some (s\<lparr>nodes := h\<rparr>))"

definition pending_add :: "wref \<Rightarrow> addr \<Rightarrow> sys \<Rightarrow> sys" where
  "pending_add w n s =
     s\<lparr>watchdogs := (watchdogs s)
         (w := (watchdogs s w)\<lparr>pendingExecutionTargets := set_add (pendingExecutionTargets (watchdogs s w)) n\<rparr>)\<rparr>"

definition pending_delete :: "wref \<Rightarrow> addr \<Rightarrow> sys \<Rightarrow> sys" where
  "pending_delete w n s =
     s\<lparr>watchdogs := (watchdogs s)
         (w := (watchdogs s w)\<lparr>pendingExecutionTargets := set_delete (pendingExecutionTargets (watchdogs s w)) n\<rparr>)\<rparr>"

text \<open>The callback of the observer: a switch over the event.\<close>

definition observer_callback :: "wref \<Rightarrow> flags \<Rightarrow> addr \<Rightarrow> sys \<Rightarrow> unit outcome \<times> sys" where
  "observer_callback w event n s =
     (let s1 = scheduleCheck w s in
      if event = INIT then
        (case assertFiberOwnership w n s1 of
           (Throw e, s2) \<Rightarrow> (Throw e, s2)
         | (Return u, s2) \<Rightarrow>
             (case assertFiberAbort w n s2 of
                (Throw e, s3) \<Rightarrow> (Throw e, s3)
              | (Return u', s3) \<Rightarrow> (Return (), pending_add w n s3)))
      else if event = POST_EXECUTION then (Return (), pending_delete w n s1)
      else if event = RESOLVED then
        (case assertFiberAbort w n s1 of
           (Throw e, s2) \<Rightarrow> (Throw e, s2)
         | (Return u, s2) \<Rightarrow> (Return (), pending_delete w n s2))
      else (Return (), s1))"

subsection \<open>AsyncResourceObserver\<close>

definition set_notifyObserver :: "addr \<Rightarrow> oref option \<Rightarrow> sys \<Rightarrow> sys" where
  "set_notifyObserver n ob s = s\<lparr>nodes := (nodes s)(n := (nodes s n)\<lparr>notifyObserver := ob\<rparr>)\<rparr>"

definition isObserved :: "wref \<Rightarrow> addr \<Rightarrow> sys \<Rightarrow> bool" where
  "isObserved w n s \<longleftrightarrow> notifyObserver (nodes s n) = Some w"

definition observe :: "wref \<Rightarrow> addr \<Rightarrow> sys \<Rightarrow> unit outcome \<times> sys" where
  "observe w n s =
     (if notifyObserver (nodes s n) \<noteq> None \<and> notifyObserver (nodes s n) \<noteq> Some w
      then (Throw TypeError, s)
      else (Return (), set_notifyObserver n (Some w) s))"

definition Observer_onInit :: "wref \<Rightarrow> addr \<Rightarrow> sys \<Rightarrow> unit outcome \<times> sys" where
  "Observer_onInit w n s =
     (case observer_callback w INIT n s of
        (Throw e, s1) \<Rightarrow> (Throw e, s1)
      | (Return u, s1) \<Rightarrow>
          if fiberId (nodes s1 n) = fiberId_o (watchdogs s1 w) then observe w n s1
          else (Return (), s1))"

definition Observer_onBefore :: "wref \<Rightarrow> addr \<Rightarrow> sys \<Rightarrow> unit outcome \<times> sys" where
  "Observer_onBefore w n s = observer_callback w PRE_EXECUTION n s"

definition Observer_onAfter :: "wref \<Rightarrow> addr \<Rightarrow> sys \<Rightarrow> unit outcome \<times> sys" where
  "Observer_onAfter w n s =
     (case observer_callback w POST_EXECUTION n s of
        (Throw e, s1) \<Rightarrow> (Throw e, s1)
      | (Return u, s1) \<Rightarrow> (Return (), set_notifyObserver n None s1))"

definition Observer_onPromiseResolve :: "wref \<Rightarrow> addr \<Rightarrow> sys \<Rightarrow> unit outcome \<times> sys" where
  "Observer_onPromiseResolve w n s =
     (case observer_callback w RESOLVED n s of
        (Throw e, s1) \<Rightarrow> (Throw e, s1)
      | (Return u, s1) \<Rightarrow> (Return (), set_notifyObserver n None s1))"

subsection \<open>getAsyncResourceNode and the handlers of a node\<close>

text \<open>
  The do-while loop of getAsyncResourceNode walks executionOrigin upward from the node
  of the current execution context; the model carries the number of nodes it may still
  look at. The result None is a walk that did not end within them, \<open>Some None\<close> is
  \<open>undefined\<close>.
\<close>

fun searchExecutionChain :: "nat \<Rightarrow> node_heap \<Rightarrow> addr \<Rightarrow> nat \<Rightarrow> addr option option" where
  "searchExecutionChain 0 h executionNode aid = None"
| "searchExecutionChain (Suc k) h executionNode aid =
     (if asyncId (h executionNode) = aid then Some (Some executionNode)
      else
        (case map_get (executionTargets (h executionNode)) aid of
           Some n \<Rightarrow> Some (Some n)
         | None \<Rightarrow>
             (case executionOrigin (h executionNode) of
                None \<Rightarrow> Some None
              | Some origin \<Rightarrow> searchExecutionChain k h origin aid)))"

definition getAsyncResourceNode :: "nat \<Rightarrow> sys \<Rightarrow> nat \<Rightarrow> addr option option" where
  "getAsyncResourceNode k s aid =
     (case fiberRef s (executionAsyncResource s) of
        None \<Rightarrow> Some None
      | Some executionNode \<Rightarrow> searchExecutionChain k (nodes s) executionNode aid)"

definition or_flags :: "addr \<Rightarrow> flags \<Rightarrow> sys \<Rightarrow> sys" where
  "or_flags n fl s = s\<lparr>nodes := (nodes s)(n := (nodes s n)\<lparr>flags := flags (nodes s n) OR fl\<rparr>)\<rparr>"

definition Node_onBefore :: "addr \<Rightarrow> sys \<Rightarrow> unit outcome \<times> sys" where
  "Node_onBefore n s =
     (let s1 = or_flags n PRE_EXECUTION s in
      case notifyObserver (nodes s1 n) of
        Some ob \<Rightarrow> if active (nodes s1 n) then Observer_onBefore ob n s1 else (Return (), s1)
      | None \<Rightarrow> (Return (), s1))"

definition Node_onAfter :: "addr \<Rightarrow> sys \<Rightarrow> unit outcome \<times> sys" where
  "Node_onAfter n s =
     (let s1 = or_flags n POST_EXECUTION s in
      case notifyObserver (nodes s1 n) of
        Some ob \<Rightarrow> if active (nodes s1 n) then Observer_onAfter ob n s1 else (Return (), s1)
      | None \<Rightarrow> (Return (), s1))"

definition Node_onPromiseResolve :: "addr \<Rightarrow> sys \<Rightarrow> unit outcome \<times> sys" where
  "Node_onPromiseResolve n s =
     (let s1 = or_flags n RESOLVED s in
      case notifyObserver (nodes s1 n) of
        Some ob \<Rightarrow> if active (nodes s1 n) then Observer_onPromiseResolve ob n s1 else (Return (), s1)
      | None \<Rightarrow> (Return (), s1))"

text \<open>
  _onExecute creates the child node of a new async resource. The frame is what
  getStackFrame returns, taken as an argument.
\<close>

definition Node_onExecute ::
  "nat \<Rightarrow> addr \<Rightarrow> nat \<Rightarrow> string \<Rightarrow> nat \<Rightarrow> rref \<Rightarrow> frame option \<Rightarrow> sys \<Rightarrow> (unit outcome \<times> sys) option"
where
  "Node_onExecute k this aid ty triggerAsyncId resource fr s =
     (if \<not> active (nodes s this) then Some (Return (), s)
      else
        (let n = next_node s;
             nd = (new_node (fiberId (nodes s this)) aid (Some ty) fr)\<lparr>executionOrigin := Some this\<rparr>;
             s1 = s\<lparr>nodes := (nodes s)(n := nd), next_node := n + 1\<rparr>;
             s2 = s1\<lparr>fiberRef := (fiberRef s1)(resource \<mapsto> n)\<rparr>;
             s3 = s2\<lparr>nodes := (nodes s2)
                    (this := (nodes s2 this)\<lparr>executionTargets := map_set (executionTargets (nodes s2 this)) aid n\<rparr>)\<rparr>
         in case (if aid \<noteq> triggerAsyncId then getAsyncResourceNode k s3 triggerAsyncId else Some None) of
              None \<Rightarrow> None
            | Some triggerNode \<Rightarrow>
                (let s4 = (case triggerNode of
                             None \<Rightarrow> s3
                           | Some t \<Rightarrow>
                               (let s3' = s3\<lparr>nodes := (nodes s3)(n := (nodes s3 n)\<lparr>triggerOrigin := Some t\<rparr>)\<rparr>
                                in s3'\<lparr>nodes := (nodes s3')
                                     (t := (nodes s3' t)\<lparr>triggerTargets := map_set (triggerTargets (nodes s3' t)) aid n\<rparr>)\<rparr>))
                 in case notifyObserver (nodes s4 this) of
                      Some ob \<Rightarrow> Some (Observer_onInit ob n s4)
                    | None \<Rightarrow> Some (Return (), s4))))"

subsection \<open>The callbacks of asyncResourceGraphHook\<close>

definition hook_init ::
  "nat \<Rightarrow> nat \<Rightarrow> string \<Rightarrow> nat \<Rightarrow> rref \<Rightarrow> frame option \<Rightarrow> sys \<Rightarrow> (unit outcome \<times> sys) option"
where
  "hook_init k aid ty triggerAsyncId resource fr s =
     (if \<not> hookActive s then
        (let s1 = s\<lparr>hookActive := True\<rparr> in
         case fiberRef s1 (executionAsyncResource s1) of
           None \<Rightarrow> Some (Return (), s1\<lparr>hookActive := False\<rparr>)
         | Some executionNode \<Rightarrow>
             (case Node_onExecute k executionNode aid ty triggerAsyncId resource fr s1 of
                None \<Rightarrow> None
              | Some (r, s2) \<Rightarrow> Some (r, s2\<lparr>hookActive := False\<rparr>)))
      else Some (Return (), s))"

definition hook_before :: "nat \<Rightarrow> nat \<Rightarrow> sys \<Rightarrow> (unit outcome \<times> sys) option" where
  "hook_before k aid s =
     (let s1 = s\<lparr>hookActive := True\<rparr> in
      case getAsyncResourceNode k s1 aid of
        None \<Rightarrow> None
      | Some None \<Rightarrow> Some (Return (), s1\<lparr>hookActive := False\<rparr>)
      | Some (Some n) \<Rightarrow> (case Node_onBefore n s1 of (r, s2) \<Rightarrow> Some (r, s2\<lparr>hookActive := False\<rparr>)))"

definition hook_after :: "nat \<Rightarrow> nat \<Rightarrow> sys \<Rightarrow> (unit outcome \<times> sys) option" where
  "hook_after k aid s =
     (let s1 = s\<lparr>hookActive := True\<rparr> in
      case getAsyncResourceNode k s1 aid of
        None \<Rightarrow> None
      | Some None \<Rightarrow> Some (Return (), s1\<lparr>hookActive := False\<rparr>)
      | Some (Some n) \<Rightarrow> (case Node_onAfter n s1 of (r, s2) \<Rightarrow> Some (r, s2\<lparr>hookActive := False\<rparr>)))"

definition hook_promiseResolve :: "nat \<Rightarrow> nat \<Rightarrow> sys \<Rightarrow> (unit outcome \<times> sys) option" where
  "hook_promiseResolve k aid s =
     (let s1 = s\<lparr>hookActive := True\<rparr> in
      case getAsyncResourceNode k s1 aid of
        None \<Rightarrow> None
      | Some None \<Rightarrow> Some (Return (), s1\<lparr>hookActive := False\<rparr>)
      | Some (Some n) \<Rightarrow> (case Node_onPromiseResolve n s1 of (r, s2) \<Rightarrow> Some (r, s2\<lparr>hookActive := False\<rparr>)))"

subsection \<open>fiberWatchdog\<close>

text \<open>
  Both loops of fiberWatchdog that attach the observer run the same statements on a
  target they accept: push it, observe it, and when it is not finalized check its
  ownership and add it to the pending set.
\<close>

definition attach_target :: "wref \<Rightarrow> addr \<Rightarrow> addr list \<Rightarrow> sys \<Rightarrow> addr list outcome \<times> sys" where
  "attach_target w target stack s =
     (let stack1 = stack @ [target] in
      case observe w target s of
        (Throw e, s1) \<Rightarrow> (Throw e, s1)
      | (Return u, s1) \<Rightarrow>
          if flags (nodes s1 target) AND FINALIZED = 0 then
            (case assertFiberOwnership w target s1 of
               (Throw e, s2) \<Rightarrow> (Throw e, s2)
             | (Return u', s2) \<Rightarrow> (Return stack1, pending_add w target s2))
          else (Return stack1, s1))"

fun attach_root_targets :: "wref \<Rightarrow> addr list \<Rightarrow> addr list \<Rightarrow> sys \<Rightarrow> addr list outcome \<times> sys" where
  "attach_root_targets w [] stack s = (Return stack, s)"
| "attach_root_targets w (target # ts) stack s =
     (if fiberId (nodes s target) = fiberId_f (fibers s (fiber_w (watchdogs s w))) then
        (case attach_target w target stack s of
           (Throw e, s1) \<Rightarrow> (Throw e, s1)
         | (Return stack1, s1) \<Rightarrow> attach_root_targets w ts stack1 s1)
      else attach_root_targets w ts stack s)"

fun attach_pointer_targets :: "wref \<Rightarrow> addr list \<Rightarrow> addr list \<Rightarrow> sys \<Rightarrow> addr list outcome \<times> sys" where
  "attach_pointer_targets w [] stack s = (Return stack, s)"
| "attach_pointer_targets w (target # ts) stack s =
     (if \<not> isObserved w target s then
        (case attach_target w target stack s of
           (Throw e, s1) \<Rightarrow> (Throw e, s1)
         | (Return stack1, s1) \<Rightarrow> attach_pointer_targets w ts stack1 s1)
      else attach_pointer_targets w ts stack s)"

text \<open>
  The while loop pops the stack until it is empty; the model carries the number of
  pops it may still make.
\<close>

fun attach_descendants :: "nat \<Rightarrow> wref \<Rightarrow> addr list \<Rightarrow> sys \<Rightarrow> (unit outcome \<times> sys) option" where
  "attach_descendants k w [] s = Some (Return (), s)"
| "attach_descendants 0 w (x # xs) s = None"
| "attach_descendants (Suc k) w (x # xs) s =
     (let pointer = last (x # xs); stack1 = butlast (x # xs) in
      case attach_pointer_targets w (map_values (executionTargets (nodes s pointer))) stack1 s of
        (Throw e, s1) \<Rightarrow> Some (Throw e, s1)
      | (Return stack2, s1) \<Rightarrow> attach_descendants k w stack2 s1)"

definition root_inactive :: "fref \<Rightarrow> sys \<Rightarrow> sys" where
  "root_inactive f s =
     s\<lparr>nodes := (nodes s)(root (fibers s f) := (nodes s (root (fibers s f)))\<lparr>active := False\<rparr>)\<rparr>"

text \<open>
  fiberWatchdog returns the closure it creates; the promise it returns is the
  watchdogResult of that closure. The user's promise is not part of the state: the
  callbacks promise_onFulfilled and promise_onRejected run when it settles.
\<close>

definition fiberWatchdog :: "nat \<Rightarrow> fref \<Rightarrow> sref option \<Rightarrow> sys \<Rightarrow> (wref outcome \<times> sys) option" where
  "fiberWatchdog k f ab s =
     (let s1 = root_inactive f s in
      case parentFiberIds k (fibers s1) f of
        None \<Rightarrow> None
      | Some ids \<Rightarrow>
          (let w = next_watchdog s1;
               wd = \<lparr>fiber_w = f, abort = ab, parentFiberIds_w = ids,
                     pendingExecutionTargets = [], watchdogImmediate = True,
                     watchdogResult = Pending, fiberId_o = fiberId_f (fibers s1 f)\<rparr>;
               s2 = s1\<lparr>watchdogs := (watchdogs s1)(w := wd), next_watchdog := w + 1\<rparr>
           in case attach_root_targets w
                     (map_values (executionTargets (nodes s2 (root (fibers s2 f))))) [] s2 of
                (Throw e, s3) \<Rightarrow> Some (Throw e, root_inactive f s3)
              | (Return stack, s3) \<Rightarrow>
                  (case attach_descendants k w stack s3 of
                     None \<Rightarrow> None
                   | Some (Throw e, s4) \<Rightarrow> Some (Throw e, root_inactive f s4)
                   | Some (Return u, s4) \<Rightarrow> Some (Return w, root_inactive f s4))))"

subsection \<open>The exported functions\<close>

definition enable :: "frame option \<Rightarrow> sys \<Rightarrow> fref \<times> sys" where
  "enable fr s =
     (case getFiber s of
        Some f \<Rightarrow> (f, s)
      | None \<Rightarrow> (let (f, s1) = AsyncResourceFiber_new fr s in (f, Fiber_enable f s1)))"

definition disable :: "sys \<Rightarrow> fref option \<times> sys" where
  "disable s =
     (case getFiber s of
        None \<Rightarrow> (None, s)
      | Some f \<Rightarrow> (Some f, Fiber_disable f s))"

definition getFiberNode :: "sys \<Rightarrow> rref \<Rightarrow> addr option" where
  "getFiberNode s resource = fiberRef s resource"

text \<open>
  \<open>fiber(fn, params)\<close>. The user's function is any code: it is a function of the
  state that returns its promise or throws. The finally block runs on every path.
\<close>

definition fiber ::
  "nat \<Rightarrow> (sys \<Rightarrow> unit outcome \<times> sys) \<Rightarrow> sref option \<Rightarrow> frame option \<Rightarrow> sys
     \<Rightarrow> ((wref \<times> fref) outcome \<times> sys) option"
where
  "fiber k fn ab fr s =
     (let (f, s1) = AsyncResourceFiber_new fr s;
          s2 = Fiber_enable f s1
      in case fn s2 of
           (Throw e, s3) \<Rightarrow> Some (Throw e, Fiber_disable f s3)
         | (Return u, s3) \<Rightarrow>
             (case fiberWatchdog k f ab s3 of
                None \<Rightarrow> None
              | Some (Throw e, s4) \<Rightarrow> Some (Throw e, Fiber_disable f s4)
              | Some (Return w, s4) \<Rightarrow> Some (Return (w, f), Fiber_disable f s4)))"

text \<open>The state in which \<open>fiber\<close> calls the user's function.\<close>

definition fiber_entry :: "frame option \<Rightarrow> sys \<Rightarrow> sys" where
  "fiber_entry fr s = (let (f, s1) = AsyncResourceFiber_new fr s in Fiber_enable f s1)"

text \<open>The state of the module when it is loaded: no fiber, no node, the hook disabled.\<close>

definition init_sys :: sys where
  "init_sys =
     \<lparr> nodes = (\<lambda>_. new_node 0 0 None None), next_node = 0,
       fibers = (\<lambda>_. \<lparr>fiberId_f = 0, root = 0, active_f = False, parent = None, frame_f = None\<rparr>),
       next_fiber = 0, fiberStack = [], fiberIdx = 1,
       hookEnabled = False, hookActive = False,
       watchdogs = (\<lambda>_. \<lparr>fiber_w = 0, abort = None, parentFiberIds_w = [],
                           pendingExecutionTargets = [], watchdogImmediate = False,
                           watchdogResult = Pending, fiberId_o = 0\<rparr>),
       next_watchdog = 0,
       signals = (\<lambda>_. \<lparr>aborted = False, reason = Reason 0\<rparr>),
       fiberRef = (\<lambda>_. None), executionAsyncResource = 0, executionAsyncId = 1 \<rparr>"

section \<open>The operations of the module\<close>

text \<open>
  Every way the state changes: the methods and exported functions a caller can invoke,
  the callbacks the runtime invokes (the four hook callbacks, the stall check, the two
  callbacks on the user's promise, the abort listener), and the two things the runtime
  does by itself: entering another execution context and aborting a signal. The call
  \<open>fiber(fn, params)\<close> is the sequence \<open>Op_new\<close>, \<open>Op_Fiber_enable\<close>, the operations
  of \<open>fn\<close>, \<open>Op_fiberWatchdog\<close>, \<open>Op_Fiber_disable\<close>.
\<close>

datatype operation =
    Op_new "frame option"
  | Op_Fiber_enable fref
  | Op_Fiber_disable fref
  | Op_enable "frame option"
  | Op_disable
  | Op_fiberWatchdog fref "sref option"
  | Op_init nat string nat rref "frame option"
  | Op_before nat
  | Op_after nat
  | Op_promiseResolve nat
  | Op_stallWatchdog wref
  | Op_promise_onFulfilled wref val
  | Op_promise_onRejected wref error
  | Op_abort_listener wref
  | Env_context rref nat
  | Env_abort sref error

fun step :: "nat \<Rightarrow> operation \<Rightarrow> sys \<Rightarrow> sys option" where
  "step k (Op_new fr) s = Some (snd (AsyncResourceFiber_new fr s))"
| "step k (Op_Fiber_enable f) s = Some (Fiber_enable f s)"
| "step k (Op_Fiber_disable f) s = Some (Fiber_disable f s)"
| "step k (Op_enable fr) s = Some (snd (enable fr s))"
| "step k Op_disable s = Some (snd (disable s))"
| "step k (Op_fiberWatchdog f ab) s = map_option snd (fiberWatchdog k f ab s)"
| "step k (Op_init aid ty triggerAsyncId resource fr) s =
     map_option snd (hook_init k aid ty triggerAsyncId resource fr s)"
| "step k (Op_before aid) s = map_option snd (hook_before k aid s)"
| "step k (Op_after aid) s = map_option snd (hook_after k aid s)"
| "step k (Op_promiseResolve aid) s = map_option snd (hook_promiseResolve k aid s)"
| "step k (Op_stallWatchdog w) s = Some (stallWatchdog w s)"
| "step k (Op_promise_onFulfilled w v) s = Some (promise_onFulfilled w v s)"
| "step k (Op_promise_onRejected w e) s = Some (promise_onRejected w e s)"
| "step k (Op_abort_listener w) s = abort_listener k w s"
| "step k (Env_context resource aid) s =
     Some (s\<lparr>executionAsyncResource := resource, executionAsyncId := aid\<rparr>)"
| "step k (Env_abort sg e) s =
     Some (s\<lparr>signals := (signals s)(sg := \<lparr>aborted = True, reason = e\<rparr>)\<rparr>)"

fun run :: "nat \<Rightarrow> operation list \<Rightarrow> sys \<Rightarrow> sys option" where
  "run k [] s = Some s"
| "run k (op # ops) s = (case step k op s of None \<Rightarrow> None | Some s1 \<Rightarrow> run k ops s1)"

text \<open>
  The existing nodes an operation stamps with a fiberId: the root of the fiber that
  \<open>enable\<close> or \<open>disable\<close> is called on.
\<close>

fun stamps :: "operation \<Rightarrow> sys \<Rightarrow> addr set" where
  "stamps (Op_Fiber_enable f) s = {root (fibers s f)}"
| "stamps (Op_Fiber_disable f) s = {root (fibers s f)}"
| "stamps (Op_enable fr) s =
     (case getFiber s of
        Some f \<Rightarrow> {}
      | None \<Rightarrow> (case fiberRef s (executionAsyncResource s) of Some r \<Rightarrow> {r} | None \<Rightarrow> {}))"
| "stamps Op_disable s = (case getFiber s of None \<Rightarrow> {} | Some f \<Rightarrow> {root (fibers s f)})"
| "stamps op s = {}"

section \<open>The specification's tables\<close>

datatype verdict = Accept | Reject FiberErrorCode

text \<open>
  The parent chain of a fiber, in the specification's words: the fibers reached from
  it by following the parent reference once or more often. A fiber id is in the
  parent-fiber id chain when one of them carries it.
\<close>

inductive ancestor :: "(fref \<Rightarrow> AsyncResourceFiber) \<Rightarrow> fref \<Rightarrow> fref \<Rightarrow> bool"
  for fs :: "fref \<Rightarrow> AsyncResourceFiber"
where
  ancestor_parent: "parent (fs f) = Some p \<Longrightarrow> ancestor fs f p"
| ancestor_step: "parent (fs f) = Some p \<Longrightarrow> ancestor fs p g \<Longrightarrow> ancestor fs f g"

definition in_parent_chain :: "(fref \<Rightarrow> AsyncResourceFiber) \<Rightarrow> fref \<Rightarrow> nat \<Rightarrow> bool" where
  "in_parent_chain fs f fid \<longleftrightarrow> (\<exists>g. ancestor fs f g \<and> fiberId_f (fs g) = fid)"

text \<open>
  The table of the ownership validation as the specification gives it, read from the
  top: \<open>n\<close> is the node, \<open>t\<close> its triggerOrigin, and the fiber is the one the
  watchdog supervises.
\<close>

definition ownership_table :: "sys \<Rightarrow> wref \<Rightarrow> addr \<Rightarrow> verdict" where
  "ownership_table s w n =
     (let f = fiber_w (watchdogs s w);
          fb = fibers s f
      in case triggerOrigin (nodes s n) of
           None \<Rightarrow> Accept
         | Some t \<Rightarrow>
             if fiberId (nodes s n) \<noteq> fiberId_f fb then Accept
             else if t = root fb then Accept
             else if fiberId (nodes s t) = fiberId (nodes s n) then Accept
             else if in_parent_chain (fibers s) f (fiberId (nodes s t))
               then Reject PARENT_ASYNC_TRIGGER
             else Reject FOREIGN_ASYNC_TRIGGER)"

text \<open>
  The node a FIBER_STALL fault points at, in the specification's words: the last
  pending node, or the last execution target of the root that the fiber owns, or the
  root itself.
\<close>

definition stall_node :: "sys \<Rightarrow> wref \<Rightarrow> addr" where
  "stall_node s w =
     (let wd = watchdogs s w;
          fb = fibers s (fiber_w wd);
          owned = filter (\<lambda>a. fiberId (nodes s a) = fiberId_f fb)
                    (map snd (executionTargets (nodes s (root fb))))
      in if pendingExecutionTargets wd \<noteq> [] then last (pendingExecutionTargets wd)
         else if owned \<noteq> [] then last owned
         else root fb)"

section \<open>Locating a node, in the specification's words\<close>

text \<open>
  The node of an asyncId is looked for along the current execution context's node and
  the nodes above it by executionOrigin (at most \<open>k\<close> of them): the first of these
  that has the asyncId itself, or has it among its executionTargets, gives the node.
\<close>

fun originChain :: "nat \<Rightarrow> node_heap \<Rightarrow> addr \<Rightarrow> addr list" where
  "originChain 0 h e = []"
| "originChain (Suc k) h e =
     e # (case executionOrigin (h e) of None \<Rightarrow> [] | Some p \<Rightarrow> originChain k h p)"

definition own_or_target :: "node_heap \<Rightarrow> nat \<Rightarrow> addr \<Rightarrow> addr option" where
  "own_or_target h aid e =
     (if asyncId (h e) = aid then Some e else map_of (executionTargets (h e)) aid)"

definition locate :: "nat \<Rightarrow> sys \<Rightarrow> nat \<Rightarrow> addr option" where
  "locate k s aid =
     (case fiberRef s (executionAsyncResource s) of
        None \<Rightarrow> None
      | Some e \<Rightarrow>
          (case find (\<lambda>c. own_or_target (nodes s) aid c \<noteq> None) (originChain k (nodes s) e) of
             None \<Rightarrow> None
           | Some c \<Rightarrow> own_or_target (nodes s) aid c))"

text \<open>
  The chain of executionOrigin that starts at a node ends within \<open>k\<close> nodes: the
  walk of getAsyncResourceNode then meets a node without executionOrigin, if it has not
  found the asyncId before.
\<close>

fun chain_ends :: "nat \<Rightarrow> node_heap \<Rightarrow> addr \<Rightarrow> bool" where
  "chain_ends 0 h e = False"
| "chain_ends (Suc k) h e =
     (case executionOrigin (h e) of None \<Rightarrow> True | Some p \<Rightarrow> chain_ends k h p)"

definition context_chain_ends :: "nat \<Rightarrow> sys \<Rightarrow> bool" where
  "context_chain_ends k s =
     (case fiberRef s (executionAsyncResource s) of
        None \<Rightarrow> True
      | Some e \<Rightarrow> chain_ends k (nodes s) e)"

section \<open>Graphs without a cycle\<close>

text \<open>
  A graph has no cycle when its nodes can be ranked so that every execution target and
  every trigger target of a node ranks below the node. (The module adds a node to a
  target map only when it creates the node, so the graphs it builds are of this kind.)
\<close>

definition ranked :: "(addr \<Rightarrow> nat) \<Rightarrow> node_heap \<Rightarrow> bool" where
  "ranked rk h \<longleftrightarrow>
     (\<forall>a. \<forall>t \<in> set (map_values (executionTargets (h a)) @ map_values (triggerTargets (h a))).
            rk t < rk a)"

definition same_targets :: "node_heap \<Rightarrow> node_heap \<Rightarrow> bool" where
  "same_targets h h' \<longleftrightarrow>
     (\<forall>a. executionTargets (h' a) = executionTargets (h a) \<and>
          triggerTargets (h' a) = triggerTargets (h a))"

section \<open>Frame conditions\<close>

text \<open>
  What a step from \<open>s\<close> to \<open>s'\<close> keeps. A settled wrapped result is one that is not
  pending. \<open>closure_kept\<close>: the fibers, the fiber stack, and what each closure of
  fiberWatchdog captured when it was created. \<open>watchdog_step\<close>: only closures of
  fiberWatchdog and the hook's flag change, and no settled result among them.
  \<open>node_step\<close>: nodes may change too, but not their fiberId. \<open>alloc_step\<close>: nodes
  and closures may also be created.
\<close>

definition settled_kept :: "sys \<Rightarrow> sys \<Rightarrow> bool" where
  "settled_kept s s' \<longleftrightarrow>
     (\<forall>w. watchdogResult (watchdogs s w) \<noteq> Pending \<longrightarrow>
          watchdogResult (watchdogs s' w) = watchdogResult (watchdogs s w))"

definition closure_kept :: "sys \<Rightarrow> sys \<Rightarrow> bool" where
  "closure_kept s s' \<longleftrightarrow>
     fibers s' = fibers s \<and> next_fiber s' = next_fiber s \<and> fiberStack s' = fiberStack s \<and>
     (\<forall>w. fiber_w (watchdogs s' w) = fiber_w (watchdogs s w) \<and>
          parentFiberIds_w (watchdogs s' w) = parentFiberIds_w (watchdogs s w))"

definition watchdog_step :: "sys \<Rightarrow> sys \<Rightarrow> bool" where
  "watchdog_step s s' \<longleftrightarrow>
     nodes s' = nodes s \<and> next_node s' = next_node s \<and> next_watchdog s' = next_watchdog s \<and>
     settled_kept s s' \<and> closure_kept s s'"

definition node_step :: "sys \<Rightarrow> sys \<Rightarrow> bool" where
  "node_step s s' \<longleftrightarrow>
     (\<forall>a. fiberId (nodes s' a) = fiberId (nodes s a)) \<and>
     next_node s' = next_node s \<and> next_watchdog s' = next_watchdog s \<and>
     settled_kept s s' \<and> closure_kept s s'"

definition alloc_step :: "addr set \<Rightarrow> sys \<Rightarrow> sys \<Rightarrow> bool" where
  "alloc_step X s s' \<longleftrightarrow>
     (\<forall>a. a < next_node s \<longrightarrow> a \<notin> X \<longrightarrow> fiberId (nodes s' a) = fiberId (nodes s a)) \<and>
     (\<forall>w. w < next_watchdog s \<longrightarrow> watchdogResult (watchdogs s w) \<noteq> Pending \<longrightarrow>
          watchdogResult (watchdogs s' w) = watchdogResult (watchdogs s w)) \<and>
     next_node s \<le> next_node s' \<and> next_watchdog s \<le> next_watchdog s'"

section \<open>States the module can reach\<close>

text \<open>
  A closure of fiberWatchdog holds the parent chain of its fiber when its list of
  parent fiber ids is what the getter parentFiberIds returns for the fiber it
  supervises.
\<close>

definition parent_chain_captured :: "nat \<Rightarrow> sys \<Rightarrow> wref \<Rightarrow> bool" where
  "parent_chain_captured k s w \<longleftrightarrow>
     parentFiberIds k (fibers s) (fiber_w (watchdogs s w)) =
       Some (parentFiberIds_w (watchdogs s w))"

text \<open>
  What holds of the fibers in every state the module reaches: the fibers on the stack,
  the parents of fibers and the fibers that closures supervise are objects that have
  been created, and every closure holds the parent chain of its fiber. An operation
  can be applied when the fiber it is called on has been created.
\<close>

definition fibers_created :: "nat \<Rightarrow> sys \<Rightarrow> bool" where
  "fibers_created k s \<longleftrightarrow>
     (\<forall>g \<in> set (fiberStack s). g < next_fiber s) \<and>
     (\<forall>g p. parent (fibers s g) = Some p \<longrightarrow> p < next_fiber s) \<and>
     (\<forall>w. w < next_watchdog s \<longrightarrow>
          fiber_w (watchdogs s w) < next_fiber s \<and> parent_chain_captured k s w)"

fun applicable :: "sys \<Rightarrow> operation \<Rightarrow> bool" where
  "applicable s (Op_Fiber_enable f) = (f < next_fiber s)"
| "applicable s (Op_fiberWatchdog f ab) = (f < next_fiber s)"
| "applicable s op = True"

fun all_applicable :: "nat \<Rightarrow> operation list \<Rightarrow> sys \<Rightarrow> bool" where
  "all_applicable k [] s = True"
| "all_applicable k (op # ops) s =
     (applicable s op \<and> (case step k op s of None \<Rightarrow> True | Some s1 \<Rightarrow> all_applicable k ops s1))"

section \<open>Example states\<close>

text \<open>
  A root with one execution target that has finished (POST_EXECUTION), which in turn
  has created a promise that has not.
\<close>

definition taint_heap :: node_heap where
  "taint_heap =
     (\<lambda>_. new_node 0 0 None None)
       (1 := (new_node 1 1 None None)\<lparr>executionTargets := [(2, 2)]\<rparr>,
        2 := (new_node 1 2 (Some ''Immediate'') None)
               \<lparr>executionOrigin := Some 1, executionTargets := [(3, 3)], flags := POST_EXECUTION\<rparr>,
        3 := (new_node 1 3 (Some ''PROMISE'') None)\<lparr>executionOrigin := Some 2\<rparr>)"

text \<open>
  Two promises, each a trigger target of the other. (The module adds a node to a target
  map only when it creates the node, so no sequence of its operations builds this heap.)
\<close>

definition cyclic_heap :: node_heap where
  "cyclic_heap =
     (\<lambda>_. new_node 0 0 None None)
       (1 := (new_node 1 1 (Some ''PROMISE'') None)\<lparr>triggerOrigin := Some 2, triggerTargets := [(2, 2)]\<rparr>,
        2 := (new_node 1 2 (Some ''PROMISE'') None)\<lparr>triggerOrigin := Some 1, triggerTargets := [(1, 1)]\<rparr>)"

definition two_cycle :: "node_heap \<Rightarrow> bool" where
  "two_cycle h \<longleftrightarrow>
     executionTargets (h 1) = [] \<and> triggerTargets (h 1) = [(2, 2)] \<and>
     executionTargets (h 2) = [] \<and> triggerTargets (h 2) = [(1, 1)]"

text \<open>
  The state after \<open>enable()\<close> alone, and the state after a second fiber has then been
  created in the same execution context (before it is enabled).
\<close>

definition enabled_state :: sys where
  "enabled_state = snd (enable None init_sys)"

definition created_state :: sys where
  "created_state = snd (AsyncResourceFiber_new None enabled_state)"

text \<open>
  The state after \<open>enable()\<close> and two nested fibers have been created and enabled in
  the same execution context: three fibers on the stack, sharing one root node.
\<close>

definition nested_state :: sys where
  "nested_state =
     (let (r, s1) = enable None init_sys;
          (f, s2) = AsyncResourceFiber_new None s1;
          s3 = Fiber_enable f s2;
          (g, s4) = AsyncResourceFiber_new None s3
      in Fiber_enable g s4)"

text \<open>
  The first scenario of the tests at the moment fiberWatchdog checks the fiber's
  promise: the root fiber 0 (fiberId 1) has created the promise node 1 in the root
  context (node 0); fiber 1 (fiberId 2) is enabled on the same root and has created the
  promise node 2, which node 1 triggers. Watchdog 0 supervises fiber 1.
\<close>

definition ownership_state :: sys where
  "ownership_state =
     init_sys
       \<lparr> nodes := (nodes init_sys)
           (0 := (new_node 2 1 None None)
                   \<lparr>active := False, executionTargets := [(2, 1), (3, 2)], triggerTargets := [(2, 1)]\<rparr>,
            1 := (new_node 1 2 (Some ''PROMISE'') None)
                   \<lparr>executionOrigin := Some 0, triggerOrigin := Some 0, triggerTargets := [(3, 2)]\<rparr>,
            2 := (new_node 2 3 (Some ''PROMISE'') None)
                   \<lparr>executionOrigin := Some 0, triggerOrigin := Some 1, notifyObserver := Some 0\<rparr>),
         next_node := 3,
         fibers := (fibers init_sys)
           (0 := \<lparr>fiberId_f = 1, root = 0, active_f = True, parent = None, frame_f = None\<rparr>,
            1 := \<lparr>fiberId_f = 2, root = 0, active_f = True, parent = Some 0, frame_f = None\<rparr>),
         next_fiber := 2, fiberStack := [0, 1], fiberIdx := 3, hookEnabled := True,
         watchdogs := (watchdogs init_sys)
           (0 := \<lparr>fiber_w = 1, abort = None, parentFiberIds_w = [1],
                  pendingExecutionTargets = [], watchdogImmediate = True,
                  watchdogResult = Pending, fiberId_o = 2\<rparr>),
         next_watchdog := 1,
         fiberRef := (fiberRef init_sys)(0 \<mapsto> 0, 1 \<mapsto> 1, 2 \<mapsto> 2) \<rparr>"

text \<open>
  The fifth scenario of the tests after \<open>fiber\<close> has returned: fiber 1 has created one
  promise, node 1, that nothing resolves; watchdog 0 has it in its pending set.
\<close>

definition stall_state :: sys where
  "stall_state =
     init_sys
       \<lparr> nodes := (nodes init_sys)
           (0 := (new_node 1 1 None None)
                   \<lparr>active := False, executionTargets := [(2, 1)], triggerTargets := [(2, 1)]\<rparr>,
            1 := (new_node 2 2 (Some ''PROMISE'') None)
                   \<lparr>executionOrigin := Some 0, triggerOrigin := Some 0, notifyObserver := Some 0\<rparr>),
         next_node := 2,
         fibers := (fibers init_sys)
           (0 := \<lparr>fiberId_f = 1, root = 0, active_f = True, parent = None, frame_f = None\<rparr>,
            1 := \<lparr>fiberId_f = 2, root = 0, active_f = False, parent = Some 0, frame_f = None\<rparr>),
         next_fiber := 2, fiberStack := [0], fiberIdx := 3, hookEnabled := True,
         watchdogs := (watchdogs init_sys)
           (0 := \<lparr>fiber_w = 1, abort = None, parentFiberIds_w = [1],
                  pendingExecutionTargets = [1], watchdogImmediate = True,
                  watchdogResult = Pending, fiberId_o = 2\<rparr>),
         next_watchdog := 1,
         fiberRef := (fiberRef init_sys)(0 \<mapsto> 0, 1 \<mapsto> 1) \<rparr>"

text \<open>
  The same, when the fiber was given the abort signal 0 and that signal had been aborted
  before \<open>fiber\<close> was called.
\<close>

definition aborted_state :: sys where
  "aborted_state =
     stall_state
       \<lparr> watchdogs := (watchdogs stall_state)
           (0 := (watchdogs stall_state 0)\<lparr>abort := Some 0\<rparr>),
         signals := (signals stall_state)(0 := \<lparr>aborted = True, reason = Reason 7\<rparr>) \<rparr>"

text \<open>\<open>stall_state\<close> after the promise node 1 has been resolved.\<close>

definition resolved_state :: sys where
  "resolved_state =
     stall_state
       \<lparr> nodes := (nodes stall_state)
           (1 := (nodes stall_state 1)\<lparr>flags := RESOLVED, notifyObserver := None\<rparr>),
         watchdogs := (watchdogs stall_state)
           (0 := (watchdogs stall_state 0)\<lparr>pendingExecutionTargets := []\<rparr>) \<rparr>"

text \<open>
  A fiber whose work goes on after one suspension. The root fiber 0 (fiberId 1) has
  created the promise node 1 (asyncId 2) in the root context (node 0). Fiber 1
  (fiberId 2) has scheduled an immediate, node 2 (asyncId 3), and \<open>fiber\<close> has
  returned; watchdog 0 supervises fiber 1 and observes node 2. Now the runtime has
  entered the immediate's callback: its resource is the execution context, and the
  callback \<open>before(3)\<close> has run.
\<close>

definition suspended_state :: sys where
  "suspended_state =
     init_sys
       \<lparr> nodes := (nodes init_sys)
           (0 := (new_node 1 1 None None)
                   \<lparr>active := False, executionTargets := [(2, 1), (3, 2)],
                    triggerTargets := [(2, 1), (3, 2)]\<rparr>,
            1 := (new_node 1 2 (Some ''PROMISE'') None)
                   \<lparr>executionOrigin := Some 0, triggerOrigin := Some 0\<rparr>,
            2 := (new_node 2 3 (Some ''Immediate'') None)
                   \<lparr>executionOrigin := Some 0, triggerOrigin := Some 0,
                    flags := PRE_EXECUTION, notifyObserver := Some 0\<rparr>),
         next_node := 3,
         fibers := (fibers init_sys)
           (0 := \<lparr>fiberId_f = 1, root = 0, active_f = True, parent = None, frame_f = None\<rparr>,
            1 := \<lparr>fiberId_f = 2, root = 0, active_f = False, parent = Some 0, frame_f = None\<rparr>),
         next_fiber := 2, fiberStack := [0], fiberIdx := 3, hookEnabled := True,
         watchdogs := (watchdogs init_sys)
           (0 := \<lparr>fiber_w = 1, abort = None, parentFiberIds_w = [1],
                  pendingExecutionTargets = [2], watchdogImmediate = True,
                  watchdogResult = Pending, fiberId_o = 2\<rparr>),
         next_watchdog := 1,
         fiberRef := (fiberRef init_sys)(0 \<mapsto> 0, 1 \<mapsto> 1, 2 \<mapsto> 2),
         executionAsyncResource := 2, executionAsyncId := 3 \<rparr>"

text \<open>\<open>suspended_state\<close> after the promise node 1 has been resolved.\<close>

definition suspended_resolved_state :: sys where
  "suspended_resolved_state =
     suspended_state
       \<lparr> nodes := (nodes suspended_state)(1 := (nodes suspended_state 1)\<lparr>flags := RESOLVED\<rparr>) \<rparr>"

text \<open>
  \<open>suspended_state\<close> after the immediate's callback has awaited the root fiber's
  promise: the callback \<open>init\<close> has created the promise node 3 (asyncId 4), which
  node 1 triggers, and the ownership check has rejected the wrapped result with
  PARENT_ASYNC_TRIGGER.
\<close>

definition faulted_state :: sys where
  "faulted_state =
     suspended_state
       \<lparr> nodes := (nodes suspended_state)
           (1 := (nodes suspended_state 1)\<lparr>triggerTargets := [(4, 3)]\<rparr>,
            2 := (nodes suspended_state 2)\<lparr>executionTargets := [(4, 3)]\<rparr>,
            3 := (new_node 2 4 (Some ''PROMISE'') None)
                   \<lparr>executionOrigin := Some 2, triggerOrigin := Some 1, notifyObserver := Some 0\<rparr>),
         next_node := 4,
         watchdogs := (watchdogs suspended_state)
           (0 := (watchdogs suspended_state 0)
                   \<lparr>pendingExecutionTargets := [2, 3],
                    watchdogResult := Rejected (FiberError PARENT_ASYNC_TRIGGER 1 3)\<rparr>),
         fiberRef := (fiberRef suspended_state)(3 \<mapsto> 3) \<rparr>"

text \<open>
  Two fibers launched from the root context, each with an abort signal of its own, so
  that both have the root node 0 as their root. Fiber 1 (fiberId 2, signal 0, watchdog
  0) has scheduled an immediate, node 1 (asyncId 2); fiber 2 (fiberId 3, signal 1,
  watchdog 1) has created nothing. Signal 0 has been aborted and its listener has
  marked nodes 0 and 1 ABORTED. Then the immediate's callback has run and created the
  promise node 2 (asyncId 3), whose flags are INIT. Now signal 1 has been aborted, and
  its listener is about to run.
\<close>

definition retaint_state :: sys where
  "retaint_state =
     init_sys
       \<lparr> nodes := (nodes init_sys)
           (0 := (new_node 1 1 None None)
                   \<lparr>active := False, executionTargets := [(2, 1)], triggerTargets := [(2, 1)],
                    flags := ABORTED\<rparr>,
            1 := (new_node 2 2 (Some ''Immediate'') None)
                   \<lparr>executionOrigin := Some 0, triggerOrigin := Some 0,
                    executionTargets := [(3, 2)], triggerTargets := [(3, 2)],
                    flags := ABORTED OR PRE_EXECUTION, notifyObserver := Some 0\<rparr>,
            2 := (new_node 2 3 (Some ''PROMISE'') None)
                   \<lparr>executionOrigin := Some 1, triggerOrigin := Some 1, notifyObserver := Some 0\<rparr>),
         next_node := 3,
         fibers := (fibers init_sys)
           (0 := \<lparr>fiberId_f = 1, root = 0, active_f = True, parent = None, frame_f = None\<rparr>,
            1 := \<lparr>fiberId_f = 2, root = 0, active_f = False, parent = Some 0, frame_f = None\<rparr>,
            2 := \<lparr>fiberId_f = 3, root = 0, active_f = False, parent = Some 0, frame_f = None\<rparr>),
         next_fiber := 3, fiberStack := [0], fiberIdx := 4, hookEnabled := True,
         watchdogs := (watchdogs init_sys)
           (0 := \<lparr>fiber_w = 1, abort = Some 0, parentFiberIds_w = [1],
                  pendingExecutionTargets = [1, 2], watchdogImmediate = True,
                  watchdogResult = Rejected (FiberError FIBER_ABORTED 1 1), fiberId_o = 2\<rparr>,
            1 := \<lparr>fiber_w = 2, abort = Some 1, parentFiberIds_w = [1],
                  pendingExecutionTargets = [], watchdogImmediate = True,
                  watchdogResult = Pending, fiberId_o = 3\<rparr>),
         next_watchdog := 2,
         signals := (signals init_sys)
           (0 := \<lparr>aborted = True, reason = Reason 7\<rparr>,
            1 := \<lparr>aborted = True, reason = Reason 8\<rparr>),
         fiberRef := (fiberRef init_sys)(0 \<mapsto> 0, 1 \<mapsto> 1, 2 \<mapsto> 2),
         executionAsyncResource := 1, executionAsyncId := 2 \<rparr>"

text \<open>A user function that disables the root fiber, fiber 0, and then throws.\<close>

definition disable_root_and_throw :: "sys \<Rightarrow> unit outcome \<times> sys" where
  "disable_root_and_throw s = (Throw (Reason 0), Fiber_disable 0 s)"

text \<open>A user function that throws and does nothing else.\<close>

definition just_throw :: "sys \<Rightarrow> unit outcome \<times> sys" where
  "just_throw s = (Throw (Reason 0), s)"

section \<open>The flags as bit sets\<close>

lemma FINALIZED_AND_ABORTED: "(x AND FINALIZED) AND ABORTED = 0"
  by (simp add: FINALIZED_def ABORTED_def POST_EXECUTION_def RESOLVED_def and.assoc)

lemma flag_distinct:
  "PRE_EXECUTION \<noteq> INIT" "PRE_EXECUTION \<noteq> POST_EXECUTION" "PRE_EXECUTION \<noteq> RESOLVED"
  "POST_EXECUTION \<noteq> INIT" "RESOLVED \<noteq> INIT" "RESOLVED \<noteq> POST_EXECUTION"
  "ABORTED \<noteq> 0"
  by (simp_all add: PRE_EXECUTION_def INIT_def POST_EXECUTION_def RESOLVED_def ABORTED_def)

lemma flag_and:
  "INIT AND x = 0" "INIT OR x = x"
  "PRE_EXECUTION AND FINALIZED = 0" "PRE_EXECUTION AND ABORTED = 0"
  "ABORTED AND ABORTED = ABORTED"
  "(ABORTED OR PRE_EXECUTION) AND ABORTED = ABORTED"
  "ABORTED OR ABORTED = ABORTED"
  "(ABORTED OR PRE_EXECUTION) OR ABORTED = ABORTED OR PRE_EXECUTION"
  by (simp_all add: PRE_EXECUTION_def INIT_def POST_EXECUTION_def RESOLVED_def ABORTED_def
        FINALIZED_def)

text \<open>The definitions that evaluate a sequence of operations on a given state.\<close>

lemmas scenario_defs =
  enable_def getFiber_def init_sys_def AsyncResourceFiber_new_def
  Fiber_enable_def Fiber_disable_def Let_def new_node_def hook_init_def Node_onExecute_def
  getAsyncResourceNode_def map_get_def map_values_def fiberWatchdog_def
  root_inactive_def attach_target_def observe_def isObserved_def set_notifyObserver_def
  assertFiberOwnership_def assertFiberError_def watchdogResult_reject_def promise_reject_def
  promiseResolve_reentered_def pending_add_def set_add_def splice_def
  hook_before_def Node_onBefore_def or_flags_def Observer_onBefore_def Observer_onInit_def
  observer_callback_def scheduleCheck_def assertFiberAbort_def signal_aborted_def
  abort_listener_def FINALIZED_AND_ABORTED flag_and flag_distinct
  fun_eq_iff numeral_2_eq_2 numeral_3_eq_3

section \<open>Taint propagation with the mask FINALIZED and the flag ABORTED\<close>

text \<open>
  C1. The abort listener calls taintAsyncResourceGraph with the mask FINALIZED and the
  flag ABORTED. The guard tests \<open>node.flags & mask & flags\<close>, and FINALIZED and ABORTED
  share no bit, so the guard holds at every node. On \<open>taint_heap\<close> the node 2 is
  finalized before the call; the call returns, and afterwards node 2 carries ABORTED
  and so does node 3, which is reachable through node 2 only: the finalized node is
  neither skipped nor is the recursion into its targets left out.
\<close>

theorem taint_marks_finalized_node:
  "\<exists>h'. taintAsyncResourceGraph 4 1 FINALIZED ABORTED taint_heap = Some h' \<and>
        flags (taint_heap 2) AND FINALIZED \<noteq> 0 \<and>
        flags (h' 2) = POST_EXECUTION OR ABORTED \<and>
        flags (h' 3) = ABORTED"
  by (simp add: taint_heap_def new_node_def map_values_def numeral_nat FINALIZED_AND_ABORTED INIT_def)
     (simp add: FINALIZED_def ABORTED_def POST_EXECUTION_def RESOLVED_def)

text \<open>
  C2. In \<open>retaint_state\<close> the abort of the first signal has marked the root, node 0,
  and node 1 ABORTED; node 2 was created afterwards, is reachable through node 1 only,
  and is not marked. The listener of the second signal calls taintAsyncResourceGraph on
  the same root. The guard holds at nodes 0 and 1 although they carry the flag already:
  the call enters them again and recurses into their targets again, so node 2 becomes
  ABORTED. (The call returns: this graph has no cycle.)
\<close>

theorem taint_enters_marked_node:
  "\<exists>s'. abort_listener 4 1 retaint_state = Some s' \<and>
        root (fibers retaint_state (fiber_w (watchdogs retaint_state 1))) = 0 \<and>
        flags (nodes retaint_state 0) AND ABORTED \<noteq> 0 \<and>
        flags (nodes retaint_state 1) AND ABORTED \<noteq> 0 \<and>
        flags (nodes retaint_state 2) = INIT \<and>
        map_values (executionTargets (nodes retaint_state 0)) = [1] \<and>
        map_values (triggerTargets (nodes retaint_state 0)) = [1] \<and>
        flags (nodes s' 2) = ABORTED"
  by (simp add: abort_listener_def retaint_state_def init_sys_def new_node_def map_values_def
        numeral_nat FINALIZED_AND_ABORTED flag_and flag_distinct Let_def)

text \<open>
  On a graph without a cycle the call returns, whatever the mask and the flag, when it
  is given a depth of recursion above the rank of the node it starts at; it changes no
  target map. So does the abort listener. The graph of \<open>retaint_state\<close> is such a
  graph.
\<close>

lemma same_targets_refl: "same_targets h h"
  by (simp add: same_targets_def)

lemma same_targets_trans: "same_targets h h1 \<Longrightarrow> same_targets h1 h2 \<Longrightarrow> same_targets h h2"
  by (simp add: same_targets_def)

lemma same_targets_ranked: "same_targets h h' \<Longrightarrow> ranked rk h \<Longrightarrow> ranked rk h'"
  by (simp add: same_targets_def ranked_def)

lemma same_targets_flags: "same_targets h (h(a := (h a)\<lparr>flags := x\<rparr>))"
  by (simp add: same_targets_def)

lemma taint_returns:
  "ranked rk h \<Longrightarrow> rk a < k \<Longrightarrow>
     \<exists>h'. taintAsyncResourceGraph k a msk fl h = Some h' \<and> same_targets h h'"
  "ranked rk h \<Longrightarrow> \<forall>t \<in> set ts. rk t < k \<Longrightarrow>
     \<exists>h'. taintTargets k ts msk fl h = Some h' \<and> same_targets h h'"
proof (induction k a msk fl h and k ts msk fl h
       rule: taintAsyncResourceGraph_taintTargets.induct)
  case (1 a msk fl h)
  then show ?case by simp
next
  case (2 k a msk fl h)
  let ?h1 = "h(a := (h a)\<lparr>flags := flags (h a) OR fl\<rparr>)"
  show ?case
  proof (cases "(flags (h a) AND msk) AND fl = 0")
    case False
    then show ?thesis by (simp add: same_targets_refl)
  next
    case True
    have s1: "same_targets h ?h1" by (rule same_targets_flags)
    then have r1: "ranked rk ?h1" using "2.prems"(1) by (rule same_targets_ranked)
    have below: "\<forall>t \<in> set (map_values (executionTargets (h a)) @
                               map_values (triggerTargets (h a))). rk t < rk a"
      using "2.prems"(1) by (simp add: ranked_def)
    have b1: "\<forall>t \<in> set (map_values (executionTargets (?h1 a))). rk t < k"
    proof
      fix t assume "t \<in> set (map_values (executionTargets (?h1 a)))"
      then have "t \<in> set (map_values (executionTargets (h a)) @
                            map_values (triggerTargets (h a)))" by simp
      with below have "rk t < rk a" by blast
      with "2.prems"(2) show "rk t < k" by simp
    qed
    from "2.IH"(1) [OF True refl r1 b1] obtain h2 where
      e: "taintTargets k (map_values (executionTargets (?h1 a))) msk fl ?h1 = Some h2"
      and s2: "same_targets ?h1 h2" by blast
    from s1 s2 have s02: "same_targets h h2" by (rule same_targets_trans)
    then have r2: "ranked rk h2" using "2.prems"(1) by (rule same_targets_ranked)
    have tt: "triggerTargets (h2 a) = triggerTargets (h a)"
      using s02 by (simp add: same_targets_def)
    have b2: "\<forall>t \<in> set (map_values (triggerTargets (h2 a))). rk t < k"
    proof
      fix t assume "t \<in> set (map_values (triggerTargets (h2 a)))"
      with tt have "t \<in> set (map_values (executionTargets (h a)) @
                               map_values (triggerTargets (h a)))" by simp
      with below have "rk t < rk a" by blast
      with "2.prems"(2) show "rk t < k" by simp
    qed
    from "2.IH"(2) [OF True refl e r2 b2] obtain h' where
      t: "taintTargets k (map_values (triggerTargets (h2 a))) msk fl h2 = Some h'"
      and s3: "same_targets h2 h'" by blast
    from s02 s3 have "same_targets h h'" by (rule same_targets_trans)
    with True e t show ?thesis by (simp add: Let_def)
  qed
next
  case (3 k msk fl h)
  then show ?case by (simp add: same_targets_refl)
next
  case (4 k t ts msk fl h)
  from "4.prems" have bt: "rk t < k" and bts: "\<forall>t \<in> set ts. rk t < k" by simp_all
  from "4.IH"(1) [OF "4.prems"(1) bt] obtain h1 where
    a: "taintAsyncResourceGraph k t msk fl h = Some h1" and s1: "same_targets h h1" by blast
  from s1 "4.prems"(1) have r1: "ranked rk h1" by (rule same_targets_ranked)
  from "4.IH"(2) [OF a r1 bts] obtain h' where
    b: "taintTargets k ts msk fl h1 = Some h'" and s2: "same_targets h1 h'" by blast
  from s1 s2 have "same_targets h h'" by (rule same_targets_trans)
  with a b show ?case by simp
qed

lemma abort_listener_returns:
  "ranked rk (nodes s) \<Longrightarrow> rk (root (fibers s (fiber_w (watchdogs s w)))) < k \<Longrightarrow>
     \<exists>s'. abort_listener k w s = Some s'"
  using taint_returns(1) [of rk "nodes s" "root (fibers s (fiber_w (watchdogs s w)))" k FINALIZED ABORTED]
  by (auto simp: abort_listener_def)

lemma retaint_state_ranked: "ranked (\<lambda>a. 3 - a) (nodes retaint_state)"
  by (simp add: ranked_def retaint_state_def init_sys_def new_node_def map_values_def)


text \<open>
  What the guard would do on a cycle. The module builds none, but the specification
  speaks of them: on two nodes that are each a trigger target of the other, the call
  with the mask FINALIZED and the flag ABORTED does not return, whatever depth of
  recursion it is given, while with a mask that shares a bit with the flag it does.
\<close>

lemma two_cycle_never_returns:
  "two_cycle h \<Longrightarrow>
     taintAsyncResourceGraph k 1 FINALIZED ABORTED h = None \<and>
     taintAsyncResourceGraph k 2 FINALIZED ABORTED h = None"
proof (induction k arbitrary: h)
  case 0
  then show ?case by simp
next
  case (Suc k)
  let ?h1 = "h(1 := (h 1)\<lparr>flags := flags (h 1) OR ABORTED\<rparr>)"
  let ?h2 = "h(2 := (h 2)\<lparr>flags := flags (h 2) OR ABORTED\<rparr>)"
  have c1: "two_cycle ?h1" and c2: "two_cycle ?h2"
    using Suc.prems by (simp_all add: two_cycle_def)
  have a: "taintAsyncResourceGraph k 2 FINALIZED ABORTED ?h1 = None"
    by (rule conjunct2 [OF Suc.IH [OF c1]])
  have b: "taintAsyncResourceGraph k 1 FINALIZED ABORTED ?h2 = None"
    by (rule conjunct1 [OF Suc.IH [OF c2]])
  show ?case
    using Suc.prems a b
    by (simp add: FINALIZED_AND_ABORTED two_cycle_def map_values_def Let_def)
qed

lemma taint_on_cycle_never_returns:
  "taintAsyncResourceGraph k 1 FINALIZED ABORTED cyclic_heap = None"
  using two_cycle_never_returns [of cyclic_heap k]
  by (simp add: two_cycle_def cyclic_heap_def new_node_def)

lemma taint_on_cycle_returns_with_overlapping_mask:
  "\<exists>h'. taintAsyncResourceGraph 3 1 ABORTED ABORTED cyclic_heap = Some h' \<and>
        flags (h' 1) = ABORTED \<and> flags (h' 2) = ABORTED"
  by (simp add: cyclic_heap_def new_node_def map_values_def numeral_3_eq_3 INIT_def Let_def)
     (simp add: ABORTED_def)

section \<open>The fiber stack\<close>

lemma indexOf_notin: "x \<notin> set xs \<Longrightarrow> indexOf xs x = - 1"
  by (induction xs) (auto simp: Let_def)

lemma indexOf_in: "x \<in> set xs \<Longrightarrow> 0 \<le> indexOf xs x \<and> indexOf xs x < int (length xs)"
  by (induction xs) (auto simp: Let_def)

lemma splice_Cons_Suc:
  "0 \<le> i \<Longrightarrow> splice (y # ys) (i + 1) 1 = y # splice ys i 1"
  by (auto simp: splice_def Let_def nat_add_distrib min_def max_def drop_Cons' take_Cons' split: if_splits)

lemma splice_indexOf_in: "x \<in> set xs \<Longrightarrow> splice xs (indexOf xs x) 1 = remove1 x xs"
proof (induction xs)
  case Nil
  then show ?case by simp
next
  case (Cons y ys)
  show ?case
  proof (cases "y = x")
    case True
    then show ?thesis by (simp add: splice_def)
  next
    case False
    with Cons.prems have xin: "x \<in> set ys" by simp
    from indexOf_in [OF xin] have nn: "0 \<le> indexOf ys x" by simp
    from False nn have "indexOf (y # ys) x = indexOf ys x + 1" by (simp add: Let_def)
    then show ?thesis
      using False Cons.IH [OF xin] splice_Cons_Suc [OF nn, of y ys] by simp
  qed
qed

lemma splice_minus_one: "xs \<noteq> [] \<Longrightarrow> splice xs (- 1) 1 = butlast xs"
  by (cases xs rule: rev_cases) (auto simp: splice_def Let_def nat_add_distrib min_def max_def)

lemma find_rev_filter:
  "find P (rev xs) = (if filter P xs = [] then None else Some (last (filter P xs)))"
  by (induction xs rule: rev_induct) auto

lemma nested_state_fields:
  "fiberStack nested_state = [0, 1, 2]"
  "hookEnabled nested_state"
  "fibers nested_state 0 = \<lparr>fiberId_f = 1, root = 0, active_f = True, parent = None, frame_f = None\<rparr>"
  "fibers nested_state (Suc 0) = \<lparr>fiberId_f = 2, root = 0, active_f = True, parent = Some 0, frame_f = None\<rparr>"
  "fibers nested_state 2 = \<lparr>fiberId_f = 3, root = 0, active_f = True, parent = Some 1, frame_f = None\<rparr>"
  "fiberId (nodes nested_state 0) = 3"
  "next_fiber nested_state = 3"
  by (simp_all add: nested_state_def enable_def getFiber_def init_sys_def AsyncResourceFiber_new_def
        Fiber_enable_def Let_def new_node_def)

text \<open>
  C8. For a fiber f on the fiber stack, \<open>f.disable()\<close> takes f off the stack wherever it
  stands (its first occurrence; when the stack has no fiber twice, f is no longer on
  it), leaves the hook enabled exactly when it was enabled and the stack is not empty
  afterwards, sets the fiberId of f's root to the fiberId of the topmost remaining fiber
  whose active flag is set, or to 0 when there is none, and clears f's active flag.
\<close>

theorem Fiber_disable_on_stack:
  assumes "f \<in> set (fiberStack s)"
  shows "fiberStack (Fiber_disable f s) = remove1 f (fiberStack s) \<and>
         (distinct (fiberStack s) \<longrightarrow> f \<notin> set (fiberStack (Fiber_disable f s))) \<and>
         hookEnabled (Fiber_disable f s) = (hookEnabled s \<and> remove1 f (fiberStack s) \<noteq> []) \<and>
         fiberId (nodes (Fiber_disable f s) (root (fibers s f))) =
           (let remaining = filter (\<lambda>g. active_f (fibers s g)) (remove1 f (fiberStack s))
            in if remaining = [] then 0 else fiberId_f (fibers s (last remaining))) \<and>
         \<not> active_f (fibers (Fiber_disable f s) f)"
  using assms
  by (simp add: Fiber_disable_def splice_indexOf_in getFiber_def find_rev_filter Let_def)

theorem Fiber_disable_on_stack_witness:
  "1 \<in> set (fiberStack nested_state) \<and>
   fiberStack (Fiber_disable 1 nested_state) = [0, 2] \<and>
   hookEnabled (Fiber_disable 1 nested_state) \<and>
   fiberId (nodes (Fiber_disable 1 nested_state) 0) = 3 \<and>
   \<not> active_f (fibers (Fiber_disable 1 nested_state) 1)"
  using Fiber_disable_on_stack [of 1 nested_state]
  by (simp add: nested_state_fields)

text \<open>
  C9. For a fiber f that is not on the fiber stack, while the stack is not empty,
  \<open>f.disable()\<close> removes the last entry of the stack, which is another fiber: indexOf
  returns -1 and \<open>splice(-1, 1)\<close> deletes the final element. So disabling a fiber a
  second time changes the stack.
\<close>

theorem Fiber_disable_not_on_stack:
  assumes "f \<notin> set (fiberStack s)" and "fiberStack s \<noteq> []"
  shows "fiberStack (Fiber_disable f s) = butlast (fiberStack s) \<and>
         last (fiberStack s) \<noteq> f \<and>
         fiberStack (Fiber_disable f s) \<noteq> fiberStack s"
proof -
  have "fiberStack (Fiber_disable f s) = butlast (fiberStack s)"
    using assms by (simp add: Fiber_disable_def indexOf_notin splice_minus_one Let_def)
  moreover have "last (fiberStack s) \<noteq> f"
    using assms last_in_set by metis
  moreover have "butlast (fiberStack s) \<noteq> fiberStack s"
    using assms(2) by (metis length_butlast length_greater_0_conv diff_less zero_less_one less_irrefl)
  ultimately show ?thesis by simp
qed

theorem Fiber_disable_not_on_stack_witness:
  "1 \<notin> set (fiberStack (Fiber_disable 1 nested_state)) \<and>
   fiberStack (Fiber_disable 1 nested_state) = [0, 2] \<and>
   fiberStack (Fiber_disable 1 (Fiber_disable 1 nested_state)) = [0]"
proof -
  have st: "fiberStack (Fiber_disable 1 nested_state) = [0, 2]"
    by (simp add: Fiber_disable_def nested_state_fields splice_def Let_def)
  show ?thesis
    using Fiber_disable_not_on_stack [of 1 "Fiber_disable 1 nested_state"] st by simp
qed

section \<open>Ownership validation\<close>

lemma ancestor_unfold:
  "ancestor fs f g \<longleftrightarrow> (\<exists>p. parent (fs f) = Some p \<and> (g = p \<or> ancestor fs p g))"
  by (auto elim: ancestor.cases intro: ancestor.intros)

text \<open>
  The getter parentFiberIds, where it returns, lists the fiber ids of the parent chain.
\<close>

lemma parentFiberIds_chain:
  "parentFiberIds k fs f = Some ids \<Longrightarrow> fid \<in> set ids \<longleftrightarrow> in_parent_chain fs f fid"
proof (induction k arbitrary: f ids)
  case 0
  then have "parent (fs f) = None" and "ids = []"
    by (simp_all split: option.splits)
  then show ?case
    by (simp add: in_parent_chain_def ancestor_unfold [of fs f])
next
  case (Suc k)
  show ?case
  proof (cases "parent (fs f)")
    case None
    with Suc.prems have "ids = []" by simp
    with None show ?thesis
      by (simp add: in_parent_chain_def ancestor_unfold [of fs f])
  next
    case (Some p)
    with Suc.prems obtain ids' where r: "parentFiberIds k fs p = Some ids'"
      and ids: "ids = fiberId_f (fs p) # ids'"
      by (auto split: option.splits)
    from Suc.IH [OF r] have ih: "fid \<in> set ids' \<longleftrightarrow> in_parent_chain fs p fid" .
    have "in_parent_chain fs f fid \<longleftrightarrow> fiberId_f (fs p) = fid \<or> in_parent_chain fs p fid"
      unfolding in_parent_chain_def using Some
      by (subst ancestor_unfold [of fs f]) auto
    with ih ids show ?thesis by auto
  qed
qed

lemma watchdogResult_reject_hookActive:
  "hookActive (watchdogResult_reject w e s) \<longleftrightarrow>
     hookActive s \<and> \<not> (watchdogResult (watchdogs s w) = Pending \<and> hookEnabled s)"
  by (simp add: watchdogResult_reject_def promiseResolve_reentered_def Let_def)

lemma watchdogResult_reject_result:
  "watchdogResult (watchdogs (watchdogResult_reject w e s) w) =
     promise_reject e (watchdogResult (watchdogs s w))"
  by (simp add: watchdogResult_reject_def promiseResolve_reentered_def Let_def)

text \<open>
  C4. Let the list of parent fiber ids that the closure holds be what the getter
  parentFiberIds gives for the supervised fiber (fiberWatchdog reads the getter when it
  creates the closure). Then assertFiberOwnership classifies a node exactly as the table
  does, the parent chain being the fibers reached by the parent references. Where the
  table accepts it returns and changes nothing. Where the table rejects with a code it
  calls reject on the wrapped result with the FiberError of that code for the fiber and
  the node; it throws that error as well when a hook callback is running and the
  call of reject has not just settled the result under an enabled hook (settling it
  runs the promiseResolve callback, which resets the flag that assertFiberError reads).
\<close>

theorem assertFiberOwnership_table:
  assumes "parentFiberIds k (fibers s) (fiber_w (watchdogs s w)) =
             Some (parentFiberIds_w (watchdogs s w))"
  shows "assertFiberOwnership w n s =
     (case ownership_table s w n of
        Accept \<Rightarrow> (Return (), s)
      | Reject c \<Rightarrow>
          (let e = FiberError c (fiber_w (watchdogs s w)) n
           in (if hookActive s \<and> \<not> (watchdogResult (watchdogs s w) = Pending \<and> hookEnabled s)
               then Throw e else Return (),
               watchdogResult_reject w e s)))"
proof (cases "triggerOrigin (nodes s n)")
  case None
  then show ?thesis
    by (simp add: assertFiberOwnership_def ownership_table_def Let_def)
next
  case (Some t)
  have chain: "fiberId (nodes s t) \<in> set (parentFiberIds_w (watchdogs s w)) \<longleftrightarrow>
               in_parent_chain (fibers s) (fiber_w (watchdogs s w)) (fiberId (nodes s t))"
    by (rule parentFiberIds_chain [OF assms])
  from Some show ?thesis
    by (auto simp: assertFiberOwnership_def ownership_table_def assertFiberError_def Let_def
          chain watchdogResult_reject_hookActive)
qed

lemma ownership_state_chain:
  "in_parent_chain (fibers ownership_state) (Suc 0) (Suc 0)"
proof -
  have "ancestor (fibers ownership_state) (Suc 0) 0"
    by (rule ancestor_parent) (simp add: ownership_state_def)
  moreover have "fiberId_f (fibers ownership_state 0) = Suc 0"
    by (simp add: ownership_state_def)
  ultimately show ?thesis
    unfolding in_parent_chain_def by blast
qed

theorem assertFiberOwnership_table_witness:
  "parentFiberIds 1 (fibers ownership_state) (fiber_w (watchdogs ownership_state 0)) =
     Some (parentFiberIds_w (watchdogs ownership_state 0)) \<and>
   ownership_table ownership_state 0 2 = Reject PARENT_ASYNC_TRIGGER \<and>
   fst (assertFiberOwnership 0 2 ownership_state) = Return () \<and>
   watchdogResult (watchdogs (snd (assertFiberOwnership 0 2 ownership_state)) 0) =
     Rejected (FiberError PARENT_ASYNC_TRIGGER 1 2)"
proof -
  have cap: "parentFiberIds 1 (fibers ownership_state) (fiber_w (watchdogs ownership_state 0)) =
               Some (parentFiberIds_w (watchdogs ownership_state 0))"
    by (simp add: ownership_state_def init_sys_def)
  have tab: "ownership_table ownership_state 0 2 = Reject PARENT_ASYNC_TRIGGER"
    using ownership_state_chain
    by (simp add: ownership_table_def ownership_state_def init_sys_def new_node_def)
  have fw: "fiber_w (watchdogs ownership_state 0) = 1"
    and pend: "watchdogResult (watchdogs ownership_state 0) = Pending"
    and ha: "\<not> hookActive ownership_state"
    by (simp_all add: ownership_state_def init_sys_def)
  from assertFiberOwnership_table [OF cap, of 2]
  have "assertFiberOwnership 0 2 ownership_state =
          (Return (), watchdogResult_reject 0 (FiberError PARENT_ASYNC_TRIGGER 1 2) ownership_state)"
    by (simp add: tab fw ha)
  with cap tab pend show ?thesis
    by (simp add: watchdogResult_reject_result promise_reject_def)
qed

section \<open>The stall check\<close>

text \<open>
  C5, as the claim states it, fails when the fiber's abort signal is aborted: in
  \<open>aborted_state\<close> the pending set holds one node, an unresolved promise, so no
  pending node is both unfinalized and not a promise, and the wrapped result is
  pending; yet the stall check leaves it pending.
\<close>

theorem stallWatchdog_returns_when_aborted:
  "pendingExecutionTargets (watchdogs aborted_state 0) = [1] \<and>
   type (nodes aborted_state 1) = Some ''PROMISE'' \<and>
   watchdogResult (watchdogs aborted_state 0) = Pending \<and>
   watchdogResult (watchdogs (stallWatchdog 0 aborted_state) 0) = Pending"
  by (simp add: stallWatchdog_def aborted_state_def stall_state_def init_sys_def new_node_def
        signal_aborted_def)

text \<open>
  C5, amended. The stall check clears the immediate and leaves the graph alone. It
  returns without rejecting when the fiber's abort signal is aborted, or when some node
  of the pending set is not finalized and not of type PROMISE. Otherwise it rejects
  the wrapped result, which if still pending becomes rejected with the FIBER_STALL
  fault of the fiber whose node is \<open>stall_node\<close>.
\<close>

theorem stallWatchdog_cases:
  "nodes (stallWatchdog w s) = nodes s \<and>
   \<not> watchdogImmediate (watchdogs (stallWatchdog w s) w) \<and>
   watchdogResult (watchdogs (stallWatchdog w s) w) =
     (if signal_aborted s (abort (watchdogs s w)) then watchdogResult (watchdogs s w)
      else if (\<exists>a \<in> set (pendingExecutionTargets (watchdogs s w)).
                 flags (nodes s a) AND FINALIZED = 0 \<and> type (nodes s a) \<noteq> Some ''PROMISE'')
        then watchdogResult (watchdogs s w)
      else if watchdogResult (watchdogs s w) = Pending
        then Rejected (FiberError FIBER_STALL (fiber_w (watchdogs s w)) (stall_node s w))
      else watchdogResult (watchdogs s w))"
  by (simp add: stallWatchdog_def Let_def signal_aborted_def watchdogResult_reject_def
        promiseResolve_reentered_def
        lastExecutionTarget_def stall_node_def Fiber_executionTargets_def map_values_def
        promise_reject_def list_ex_iff split: promise.splits option.splits)

theorem stallWatchdog_cases_witness:
  "watchdogResult (watchdogs stall_state 0) = Pending \<and>
   \<not> signal_aborted stall_state (abort (watchdogs stall_state 0)) \<and>
   watchdogResult (watchdogs (stallWatchdog 0 stall_state) 0) = Rejected (FiberError FIBER_STALL 1 1)"
  using stallWatchdog_cases [of 0 stall_state]
  by (simp add: stall_state_def init_sys_def new_node_def signal_aborted_def stall_node_def)

section \<open>What the operations keep\<close>

lemma settled_kept_refl: "settled_kept s s"
  by (simp add: settled_kept_def)

lemma settled_kept_trans: "settled_kept s s1 \<Longrightarrow> settled_kept s1 s2 \<Longrightarrow> settled_kept s s2"
  by (simp add: settled_kept_def)

lemma closure_kept_refl: "closure_kept s s"
  by (simp add: closure_kept_def)

lemma closure_kept_trans: "closure_kept s s1 \<Longrightarrow> closure_kept s1 s2 \<Longrightarrow> closure_kept s s2"
  by (simp add: closure_kept_def)

lemma watchdog_step_refl: "watchdog_step s s"
  by (simp add: watchdog_step_def settled_kept_refl closure_kept_refl)

lemma watchdog_step_trans: "watchdog_step s s1 \<Longrightarrow> watchdog_step s1 s2 \<Longrightarrow> watchdog_step s s2"
  unfolding watchdog_step_def using settled_kept_trans closure_kept_trans by auto

lemma node_step_refl: "node_step s s"
  by (simp add: node_step_def settled_kept_refl closure_kept_refl)

lemma node_step_trans: "node_step s s1 \<Longrightarrow> node_step s1 s2 \<Longrightarrow> node_step s s2"
  unfolding node_step_def using settled_kept_trans closure_kept_trans by auto

lemma watchdog_step_node_step: "watchdog_step s s' \<Longrightarrow> node_step s s'"
  by (simp add: watchdog_step_def node_step_def)

lemma node_step_alloc_step: "node_step s s' \<Longrightarrow> alloc_step X s s'"
  by (simp add: node_step_def alloc_step_def settled_kept_def closure_kept_def)

lemma alloc_step_refl: "alloc_step X s s"
  by (simp add: alloc_step_def)

lemma alloc_step_trans: "alloc_step X s s1 \<Longrightarrow> alloc_step X s1 s2 \<Longrightarrow> alloc_step X s s2"
  unfolding alloc_step_def by (metis (no_types, lifting) le_trans less_le_trans)

lemma alloc_step_mono: "alloc_step X s s' \<Longrightarrow> X \<subseteq> Y \<Longrightarrow> alloc_step Y s s'"
  unfolding alloc_step_def by blast

subsection \<open>The closure's own functions\<close>

lemma promise_reject_settled: "p \<noteq> Pending \<Longrightarrow> promise_reject e p = p"
  by (cases p) (simp_all add: promise_reject_def)

lemma promise_resolve_settled: "p \<noteq> Pending \<Longrightarrow> promise_resolve v p = p"
  by (cases p) (simp_all add: promise_resolve_def)

lemma promiseResolve_reentered_step: "watchdog_step s (promiseResolve_reentered s)"
  by (simp add: watchdog_step_def settled_kept_def closure_kept_def promiseResolve_reentered_def)

lemma watchdogResult_reject_step: "watchdog_step s (watchdogResult_reject w e s)"
  by (simp add: watchdog_step_def settled_kept_def closure_kept_def watchdogResult_reject_def
        promiseResolve_reentered_def promise_reject_settled Let_def)

lemma watchdogResult_resolve_step: "watchdog_step s (watchdogResult_resolve w v s)"
  by (simp add: watchdog_step_def settled_kept_def closure_kept_def watchdogResult_resolve_def
        promiseResolve_reentered_def promise_resolve_settled Let_def)

lemma onSettled_step: "watchdog_step s (onSettled w s)"
  by (simp add: watchdog_step_def settled_kept_def closure_kept_def onSettled_def)

lemma scheduleCheck_step: "watchdog_step s (scheduleCheck w s)"
  by (simp add: watchdog_step_def settled_kept_def closure_kept_def scheduleCheck_def)

lemma pending_add_step: "watchdog_step s (pending_add w n s)"
  by (simp add: watchdog_step_def settled_kept_def closure_kept_def pending_add_def)

lemma pending_delete_step: "watchdog_step s (pending_delete w n s)"
  by (simp add: watchdog_step_def settled_kept_def closure_kept_def pending_delete_def)

lemma promise_onFulfilled_step: "watchdog_step s (promise_onFulfilled w v s)"
  unfolding promise_onFulfilled_def
  by (rule watchdog_step_trans [OF watchdogResult_resolve_step onSettled_step])

lemma promise_onRejected_step: "watchdog_step s (promise_onRejected w e s)"
  unfolding promise_onRejected_def
  by (rule watchdog_step_trans [OF watchdogResult_reject_step onSettled_step])

lemma assertFiberError_step: "assertFiberError w e s = (r, s') \<Longrightarrow> watchdog_step s s'"
  using watchdogResult_reject_step [of s w e]
  by (auto simp: assertFiberError_def Let_def split: if_splits)

lemma assertFiberOwnership_step: "assertFiberOwnership w n s = (r, s') \<Longrightarrow> watchdog_step s s'"
  by (auto simp: assertFiberOwnership_def Let_def watchdog_step_refl
        split: option.splits if_splits dest: assertFiberError_step)

lemma assertFiberAbort_step: "assertFiberAbort w n s = (r, s') \<Longrightarrow> watchdog_step s s'"
  by (auto simp: assertFiberAbort_def Let_def watchdog_step_refl
        split: option.splits if_splits prod.splits outcome.splits dest: assertFiberError_step)

lemma stallWatchdog_step: "watchdog_step s (stallWatchdog w s)"
proof -
  let ?s1 = "s\<lparr>watchdogs := (watchdogs s)(w := (watchdogs s w)\<lparr>watchdogImmediate := False\<rparr>)\<rparr>"
  have a: "watchdog_step s ?s1"
    by (simp add: watchdog_step_def settled_kept_def closure_kept_def)
  have b: "\<And>e. watchdog_step s (watchdogResult_reject w e ?s1)"
    by (rule watchdog_step_trans [OF a watchdogResult_reject_step])
  show ?thesis
    unfolding stallWatchdog_def Let_def using a b by simp
qed

lemma observer_callback_step: "observer_callback w ev n s = (r, s') \<Longrightarrow> watchdog_step s s'"
proof -
  assume h: "observer_callback w ev n s = (r, s')"
  let ?s1 = "scheduleCheck w s"
  have s1: "watchdog_step s ?s1" by (rule scheduleCheck_step)
  have "watchdog_step ?s1 s'"
    using h unfolding observer_callback_def Let_def
    by (auto split: if_splits prod.splits outcome.splits
          dest!: assertFiberOwnership_step assertFiberAbort_step
          intro: watchdog_step_trans pending_add_step pending_delete_step watchdog_step_refl)
  with s1 show ?thesis by (rule watchdog_step_trans)
qed

subsection \<open>The observer and the handlers of a node\<close>

lemma set_notifyObserver_step: "node_step s (set_notifyObserver n ob s)"
  by (simp add: node_step_def settled_kept_def closure_kept_def set_notifyObserver_def)

lemma or_flags_step: "node_step s (or_flags n fl s)"
  by (simp add: node_step_def settled_kept_def closure_kept_def or_flags_def)

lemma root_inactive_step: "node_step s (root_inactive f s)"
  by (simp add: node_step_def settled_kept_def closure_kept_def root_inactive_def)

lemma observe_step: "observe w n s = (r, s') \<Longrightarrow> node_step s s'"
  by (auto simp: observe_def node_step_refl set_notifyObserver_step split: if_splits)

lemma observer_callback_node_step: "observer_callback w ev n s = (r, s') \<Longrightarrow> node_step s s'"
  by (rule watchdog_step_node_step [OF observer_callback_step])

lemma Observer_onInit_step: "Observer_onInit w n s = (r, s') \<Longrightarrow> node_step s s'"
  by (auto simp: Observer_onInit_def split: prod.splits outcome.splits if_splits
        dest!: observer_callback_node_step observe_step intro: node_step_trans)

lemma Observer_onBefore_step: "Observer_onBefore w n s = (r, s') \<Longrightarrow> node_step s s'"
  by (simp add: Observer_onBefore_def observer_callback_node_step)

lemma Observer_onAfter_step: "Observer_onAfter w n s = (r, s') \<Longrightarrow> node_step s s'"
  by (auto simp: Observer_onAfter_def split: prod.splits outcome.splits
        dest!: observer_callback_node_step intro: node_step_trans set_notifyObserver_step)

lemma Observer_onPromiseResolve_step:
  "Observer_onPromiseResolve w n s = (r, s') \<Longrightarrow> node_step s s'"
  by (auto simp: Observer_onPromiseResolve_def split: prod.splits outcome.splits
        dest!: observer_callback_node_step intro: node_step_trans set_notifyObserver_step)

lemma observer_callback_nodes: "observer_callback w ev n s = (r, s') \<Longrightarrow> nodes s' = nodes s"
  using observer_callback_step [of w ev n s r s'] by (simp add: watchdog_step_def)

lemma Observer_onBefore_flags:
  "Observer_onBefore w n s = (r, s') \<Longrightarrow> flags (nodes s' a) = flags (nodes s a)"
  by (simp add: Observer_onBefore_def observer_callback_nodes)

lemma Observer_onAfter_flags:
  "Observer_onAfter w n s = (r, s') \<Longrightarrow> flags (nodes s' a) = flags (nodes s a)"
  by (auto simp: Observer_onAfter_def set_notifyObserver_def split: prod.splits outcome.splits
        dest!: observer_callback_nodes)

lemma Observer_onPromiseResolve_flags:
  "Observer_onPromiseResolve w n s = (r, s') \<Longrightarrow> flags (nodes s' a) = flags (nodes s a)"
  by (auto simp: Observer_onPromiseResolve_def set_notifyObserver_def
        split: prod.splits outcome.splits dest!: observer_callback_nodes)

lemma Node_onBefore_step: "Node_onBefore n s = (r, s') \<Longrightarrow> node_step s s'"
  by (auto simp: Node_onBefore_def Let_def split: option.splits if_splits
        dest!: Observer_onBefore_step intro: node_step_trans or_flags_step)

lemma Node_onAfter_step: "Node_onAfter n s = (r, s') \<Longrightarrow> node_step s s'"
  by (auto simp: Node_onAfter_def Let_def split: option.splits if_splits
        dest!: Observer_onAfter_step intro: node_step_trans or_flags_step)

lemma Node_onPromiseResolve_step: "Node_onPromiseResolve n s = (r, s') \<Longrightarrow> node_step s s'"
  by (auto simp: Node_onPromiseResolve_def Let_def split: option.splits if_splits
        dest!: Observer_onPromiseResolve_step intro: node_step_trans or_flags_step)

lemma hookActive_step: "node_step s (s\<lparr>hookActive := b\<rparr>)"
  by (simp add: node_step_def settled_kept_def closure_kept_def)

lemma hook_before_step: "hook_before k aid s = Some (r, s') \<Longrightarrow> node_step s s'"
  by (auto simp: hook_before_def Let_def node_step_def settled_kept_def closure_kept_def
        split: option.splits prod.splits dest!: Node_onBefore_step)

lemma hook_after_step: "hook_after k aid s = Some (r, s') \<Longrightarrow> node_step s s'"
  by (auto simp: hook_after_def Let_def node_step_def settled_kept_def closure_kept_def
        split: option.splits prod.splits dest!: Node_onAfter_step)

lemma hook_promiseResolve_step: "hook_promiseResolve k aid s = Some (r, s') \<Longrightarrow> node_step s s'"
  by (auto simp: hook_promiseResolve_def Let_def node_step_def settled_kept_def closure_kept_def
        split: option.splits prod.splits dest!: Node_onPromiseResolve_step)

section \<open>The hook callbacks before, after and promiseResolve\<close>

lemma searchExecutionChain_Suc:
  "searchExecutionChain (Suc k) h e aid =
     (case own_or_target h aid e of
        Some n \<Rightarrow> Some (Some n)
      | None \<Rightarrow>
          (case executionOrigin (h e) of
             None \<Rightarrow> Some None
           | Some p \<Rightarrow> searchExecutionChain k h p aid))"
  by (simp add: own_or_target_def map_get_def split: option.splits)

lemma searchExecutionChain_find:
  "searchExecutionChain k h e aid = Some r \<Longrightarrow>
     r = (case find (\<lambda>c. own_or_target h aid c \<noteq> None) (originChain k h e) of
            None \<Rightarrow> None
          | Some c \<Rightarrow> own_or_target h aid c)"
proof (induction k arbitrary: e)
  case 0
  then show ?case by simp
next
  case (Suc k)
  show ?case
  proof (cases "own_or_target h aid e")
    case (Some n)
    with Suc.prems show ?thesis
      by (auto simp: searchExecutionChain_Suc simp del: searchExecutionChain.simps)
  next
    case None
    show ?thesis
    proof (cases "executionOrigin (h e)")
      case no: None
      with None Suc.prems show ?thesis
        by (simp add: searchExecutionChain_Suc del: searchExecutionChain.simps)
    next
      case (Some p)
      with None Suc.prems have "searchExecutionChain k h p aid = Some r"
        by (simp add: searchExecutionChain_Suc del: searchExecutionChain.simps)
      from Suc.IH [OF this] None Some show ?thesis by simp
    qed
  qed
qed

lemma getAsyncResourceNode_locate:
  "getAsyncResourceNode k s aid = Some r \<Longrightarrow> r = locate k s aid"
  by (auto simp: getAsyncResourceNode_def locate_def split: option.splits
        dest: searchExecutionChain_find)

lemma getAsyncResourceNode_hookActive:
  "getAsyncResourceNode k (s\<lparr>hookActive := b\<rparr>) aid = getAsyncResourceNode k s aid"
  by (simp add: getAsyncResourceNode_def split: option.splits)

lemma hook_callback_generic:
  assumes hk: "\<And>k aid s. hook k aid s =
            (let s1 = s\<lparr>hookActive := True\<rparr> in
             case getAsyncResourceNode k s1 aid of
               None \<Rightarrow> None
             | Some None \<Rightarrow> Some (Return (), s1\<lparr>hookActive := False\<rparr>)
             | Some (Some n) \<Rightarrow> (case on_node n s1 of (r, s2) \<Rightarrow> Some (r, s2\<lparr>hookActive := False\<rparr>)))"
    and nh: "\<And>n s. on_node n s =
            (let s1 = or_flags n fl s in
             case notifyObserver (nodes s1 n) of
               Some ob \<Rightarrow> if active (nodes s1 n) then handler ob n s1 else (Return (), s1)
             | None \<Rightarrow> (Return (), s1))"
    and hf: "\<And>w n s r s' a. handler w n s = (r, s') \<Longrightarrow> flags (nodes s' a) = flags (nodes s a)"
    and run: "hook k aid s = Some (r, s')"
  shows "getAsyncResourceNode k s aid = Some (locate k s aid) \<and>
         (case locate k s aid of
            None \<Rightarrow> r = Return () \<and> s' = s\<lparr>hookActive := False\<rparr>
          | Some n \<Rightarrow>
              flags (nodes s' n) = flags (nodes s n) OR fl \<and>
              (\<forall>a. a \<noteq> n \<longrightarrow> flags (nodes s' a) = flags (nodes s a)) \<and>
              (r, s') =
                (case notifyObserver (nodes s n) of
                   Some ob \<Rightarrow>
                     if active (nodes s n)
                     then (case handler ob n (or_flags n fl (s\<lparr>hookActive := True\<rparr>)) of
                             (r1, s1) \<Rightarrow> (r1, s1\<lparr>hookActive := False\<rparr>))
                     else (Return (), (or_flags n fl s)\<lparr>hookActive := False\<rparr>)
                 | None \<Rightarrow> (Return (), (or_flags n fl s)\<lparr>hookActive := False\<rparr>)))"
proof -
  let ?s1 = "s\<lparr>hookActive := True\<rparr>"
  from run obtain loc where loc: "getAsyncResourceNode k s aid = Some loc"
    by (cases "getAsyncResourceNode k s aid")
       (simp_all add: hk Let_def getAsyncResourceNode_hookActive)
  have eq: "loc = locate k s aid"
    by (rule getAsyncResourceNode_locate [OF loc])
  show ?thesis
  proof (cases loc)
    case None
    with eq have lk: "locate k s aid = None" by simp
    from run loc None show ?thesis
      by (simp add: hk Let_def getAsyncResourceNode_hookActive lk)
  next
    case (Some n)
    with eq have lk: "locate k s aid = Some n" by simp
    let ?s2 = "or_flags n fl ?s1"
    have fs2: "\<And>a. flags (nodes ?s2 a) = (if a = n then flags (nodes s n) OR fl else flags (nodes s a))"
      by (simp add: or_flags_def)
    have obs: "notifyObserver (nodes ?s2 n) = notifyObserver (nodes s n)"
      and act: "active (nodes ?s2 n) = active (nodes s n)"
      by (simp_all add: or_flags_def)
    have off: "?s2\<lparr>hookActive := False\<rparr> = (or_flags n fl s)\<lparr>hookActive := False\<rparr>"
      by (simp add: or_flags_def)
    obtain r2 s2 where on: "on_node n ?s1 = (r2, s2)" by (cases "on_node n ?s1")
    from run loc Some on have res: "r = r2" "s' = s2\<lparr>hookActive := False\<rparr>"
      by (simp_all add: hk Let_def getAsyncResourceNode_hookActive)
    show ?thesis
    proof (cases "notifyObserver (nodes s n) \<noteq> None \<and> active (nodes s n)")
      case True
      then obtain ob where ob: "notifyObserver (nodes s n) = Some ob" and a: "active (nodes s n)"
        by auto
      from on ob a have h: "handler ob n ?s2 = (r2, s2)"
        by (simp add: nh Let_def obs act)
      have "\<And>a. flags (nodes s2 a) = flags (nodes ?s2 a)"
        by (rule hf [OF h])
      with loc Some res ob a h show ?thesis
        by (simp add: fs2 lk)
    next
      case False
      with on have "r2 = Return ()" "s2 = ?s2"
        by (auto simp: nh Let_def obs act split: option.splits if_splits)
      with loc Some res False off show ?thesis
        by (auto simp: fs2 lk or_flags_def split: option.splits)
    qed
  qed
qed

text \<open>
  The walk of getAsyncResourceNode returns when the chain of executionOrigin it follows
  ends within the nodes it may look at, and so do the three callbacks.
\<close>

lemma searchExecutionChain_returns:
  "chain_ends k h e \<Longrightarrow> \<exists>r. searchExecutionChain k h e aid = Some r"
proof (induction k arbitrary: e)
  case 0
  then show ?case by simp
next
  case (Suc k)
  show ?case
  proof (cases "executionOrigin (h e)")
    case None
    then show ?thesis
      by (simp add: searchExecutionChain_Suc del: searchExecutionChain.simps split: option.splits)
  next
    case (Some p)
    with Suc.prems have "chain_ends k h p" by simp
    from Suc.IH [OF this] obtain r where "searchExecutionChain k h p aid = Some r" by blast
    with Some show ?thesis
      by (simp add: searchExecutionChain_Suc del: searchExecutionChain.simps split: option.splits)
  qed
qed

lemma getAsyncResourceNode_returns:
  "context_chain_ends k s \<Longrightarrow> \<exists>r. getAsyncResourceNode k (s\<lparr>hookActive := b\<rparr>) aid = Some r"
  using searchExecutionChain_returns [of k "nodes s" _ aid]
  by (auto simp: context_chain_ends_def getAsyncResourceNode_def split: option.splits)

lemma hook_callback_returns:
  assumes hk: "\<And>k aid s. hook k aid s =
            (let s1 = s\<lparr>hookActive := True\<rparr> in
             case getAsyncResourceNode k s1 aid of
               None \<Rightarrow> None
             | Some None \<Rightarrow> Some (Return (), s1\<lparr>hookActive := False\<rparr>)
             | Some (Some n) \<Rightarrow> (case on_node n s1 of (r, s2) \<Rightarrow> Some (r, s2\<lparr>hookActive := False\<rparr>)))"
    and ends: "context_chain_ends k s"
  shows "\<exists>r s'. hook k aid s = Some (r, s')"
proof -
  from getAsyncResourceNode_returns [OF ends, of True aid]
  obtain loc where "getAsyncResourceNode k (s\<lparr>hookActive := True\<rparr>) aid = Some loc" by blast
  then show ?thesis
    by (cases loc) (auto simp: hk Let_def split: prod.splits)
qed

lemma hook_callback_both:
  assumes hk: "\<And>k aid s. hook k aid s =
            (let s1 = s\<lparr>hookActive := True\<rparr> in
             case getAsyncResourceNode k s1 aid of
               None \<Rightarrow> None
             | Some None \<Rightarrow> Some (Return (), s1\<lparr>hookActive := False\<rparr>)
             | Some (Some n) \<Rightarrow> (case on_node n s1 of (r, s2) \<Rightarrow> Some (r, s2\<lparr>hookActive := False\<rparr>)))"
    and nh: "\<And>n s. on_node n s =
            (let s1 = or_flags n fl s in
             case notifyObserver (nodes s1 n) of
               Some ob \<Rightarrow> if active (nodes s1 n) then handler ob n s1 else (Return (), s1)
             | None \<Rightarrow> (Return (), s1))"
    and hf: "\<And>w n s r s' a. handler w n s = (r, s') \<Longrightarrow> flags (nodes s' a) = flags (nodes s a)"
  shows "(context_chain_ends k s \<longrightarrow> (\<exists>r s'. hook k aid s = Some (r, s'))) \<and>
         (hook k aid s = Some (r, s') \<longrightarrow>
          getAsyncResourceNode k s aid = Some (locate k s aid) \<and>
          (case locate k s aid of
             None \<Rightarrow> r = Return () \<and> s' = s\<lparr>hookActive := False\<rparr>
           | Some n \<Rightarrow>
               flags (nodes s' n) = flags (nodes s n) OR fl \<and>
               (\<forall>a. a \<noteq> n \<longrightarrow> flags (nodes s' a) = flags (nodes s a)) \<and>
               (r, s') =
                 (case notifyObserver (nodes s n) of
                    Some ob \<Rightarrow>
                      if active (nodes s n)
                      then (case handler ob n (or_flags n fl (s\<lparr>hookActive := True\<rparr>)) of
                              (r1, s1) \<Rightarrow> (r1, s1\<lparr>hookActive := False\<rparr>))
                      else (Return (), (or_flags n fl s)\<lparr>hookActive := False\<rparr>)
                  | None \<Rightarrow> (Return (), (or_flags n fl s)\<lparr>hookActive := False\<rparr>))))"
proof (intro conjI impI)
  assume "context_chain_ends k s"
  then show "\<exists>r s'. hook k aid s = Some (r, s')"
    by (rule hook_callback_returns [of hook on_node, OF hk])
next
  assume ran: "hook k aid s = Some (r, s')"
  from hook_callback_generic [of hook on_node fl handler, OF hk nh hf ran]
  show "getAsyncResourceNode k s aid = Some (locate k s aid)" by (rule conjunct1)
next
  assume ran: "hook k aid s = Some (r, s')"
  from hook_callback_generic [of hook on_node fl handler, OF hk nh hf ran]
  show "case locate k s aid of
          None \<Rightarrow> r = Return () \<and> s' = s\<lparr>hookActive := False\<rparr>
        | Some n \<Rightarrow>
            flags (nodes s' n) = flags (nodes s n) OR fl \<and>
            (\<forall>a. a \<noteq> n \<longrightarrow> flags (nodes s' a) = flags (nodes s a)) \<and>
            (r, s') =
              (case notifyObserver (nodes s n) of
                 Some ob \<Rightarrow>
                   if active (nodes s n)
                   then (case handler ob n (or_flags n fl (s\<lparr>hookActive := True\<rparr>)) of
                           (r1, s1) \<Rightarrow> (r1, s1\<lparr>hookActive := False\<rparr>))
                   else (Return (), (or_flags n fl s)\<lparr>hookActive := False\<rparr>)
               | None \<Rightarrow> (Return (), (or_flags n fl s)\<lparr>hookActive := False\<rparr>))"
    by (rule conjunct2)
qed

text \<open>
  C6, as the claim states it, fails for an inactive node: in \<open>stall_state\<close> the root
  node 0 (asyncId 1) is inactive and its flags are INIT; the callback \<open>before(1)\<close> finds
  it as the node of the current execution context and sets PRE_EXECUTION on it.
\<close>

theorem hook_before_inactive_node_flags:
  "\<not> active (nodes stall_state 0) \<and>
   flags (nodes stall_state 0) = INIT \<and>
   hook_before 1 1 stall_state =
     Some (Return (),
           stall_state\<lparr>nodes := (nodes stall_state)(0 := (nodes stall_state 0)\<lparr>flags := PRE_EXECUTION\<rparr>)\<rparr>)"
  by (simp add: stall_state_def init_sys_def new_node_def hook_before_def Let_def
        getAsyncResourceNode_def Node_onBefore_def or_flags_def INIT_def)

text \<open>
  C6, amended. Each of the callbacks before, after and promiseResolve returns when the
  chain of executionOrigin above the node of the current execution context ends within
  the nodes the walk may look at. When it returns, the node for the asyncId is the one
  \<open>locate\<close> describes (the current execution context's node or one of its
  executionTargets, else the same one step up by executionOrigin, and so on). When
  there is none, nothing changes but the flag that guards the hook against re-entry,
  which is reset. When there is one, the flag of the event is set in its flags, whether
  the node is active or not, and no other node's flags change; the attached observer's
  handler runs exactly when the node is active and has an observer, and otherwise
  nothing else changes.
\<close>

theorem hook_callbacks:
  assumes "(hook, handler, fl) \<in>
             {(hook_before, Observer_onBefore, PRE_EXECUTION),
              (hook_after, Observer_onAfter, POST_EXECUTION),
              (hook_promiseResolve, Observer_onPromiseResolve, RESOLVED)}"
  shows "(context_chain_ends k s \<longrightarrow> (\<exists>r s'. hook k aid s = Some (r, s'))) \<and>
         (hook k aid s = Some (r, s') \<longrightarrow>
          getAsyncResourceNode k s aid = Some (locate k s aid) \<and>
          (case locate k s aid of
             None \<Rightarrow> r = Return () \<and> s' = s\<lparr>hookActive := False\<rparr>
           | Some n \<Rightarrow>
               flags (nodes s' n) = flags (nodes s n) OR fl \<and>
               (\<forall>a. a \<noteq> n \<longrightarrow> flags (nodes s' a) = flags (nodes s a)) \<and>
               (r, s') =
                 (case notifyObserver (nodes s n) of
                    Some ob \<Rightarrow>
                      if active (nodes s n)
                      then (case handler ob n (or_flags n fl (s\<lparr>hookActive := True\<rparr>)) of
                              (r1, s1) \<Rightarrow> (r1, s1\<lparr>hookActive := False\<rparr>))
                      else (Return (), (or_flags n fl s)\<lparr>hookActive := False\<rparr>)
                  | None \<Rightarrow> (Return (), (or_flags n fl s)\<lparr>hookActive := False\<rparr>))))"
proof -
  from assms consider
      "hook = hook_before" "handler = Observer_onBefore" "fl = PRE_EXECUTION"
    | "hook = hook_after" "handler = Observer_onAfter" "fl = POST_EXECUTION"
    | "hook = hook_promiseResolve" "handler = Observer_onPromiseResolve" "fl = RESOLVED"
    by auto
  then show ?thesis
  proof cases
    case 1
    show ?thesis
      unfolding 1
      by (rule hook_callback_both [where hook = hook_before and on_node = Node_onBefore])
         (simp_all add: hook_before_def Node_onBefore_def Observer_onBefore_flags)
  next
    case 2
    show ?thesis
      unfolding 2
      by (rule hook_callback_both [where hook = hook_after and on_node = Node_onAfter])
         (simp_all add: hook_after_def Node_onAfter_def Observer_onAfter_flags)
  next
    case 3
    show ?thesis
      unfolding 3
      by (rule hook_callback_both
                 [where hook = hook_promiseResolve and on_node = Node_onPromiseResolve])
         (simp_all add: hook_promiseResolve_def Node_onPromiseResolve_def
            Observer_onPromiseResolve_flags)
  qed
qed

lemma hook_promiseResolve_stall_state:
  "hook_promiseResolve 1 2 stall_state = Some (Return (), resolved_state)"
  by (simp add: resolved_state_def stall_state_def init_sys_def new_node_def
        hook_promiseResolve_def Let_def getAsyncResourceNode_def map_get_def
        Node_onPromiseResolve_def or_flags_def Observer_onPromiseResolve_def
        observer_callback_def scheduleCheck_def assertFiberAbort_def signal_aborted_def
        pending_delete_def set_delete_def set_notifyObserver_def
        INIT_def RESOLVED_def POST_EXECUTION_def ABORTED_def)

text \<open>
  In \<open>suspended_state\<close> the execution context is the immediate, node 2; the root
  fiber's promise (asyncId 2) is not that node and not among its executionTargets. The
  walk finds it one step up, among the executionTargets of the root.
\<close>

lemma hook_promiseResolve_suspended_state:
  "hook_promiseResolve 2 2 suspended_state = Some (Return (), suspended_resolved_state)"
  by (simp add: suspended_resolved_state_def suspended_state_def init_sys_def new_node_def
        hook_promiseResolve_def Let_def getAsyncResourceNode_def map_get_def
        Node_onPromiseResolve_def or_flags_def numeral_2_eq_2 flag_and)

theorem hook_callbacks_witness:
  "context_chain_ends 2 suspended_state \<and>
   fiberRef suspended_state (executionAsyncResource suspended_state) = Some 2 \<and>
   own_or_target (nodes suspended_state) 2 2 = None \<and>
   locate 2 suspended_state 2 = Some 1 \<and>
   hook_promiseResolve 2 2 suspended_state = Some (Return (), suspended_resolved_state) \<and>
   flags (nodes suspended_resolved_state 1) = flags (nodes suspended_state 1) OR RESOLVED \<and>
   flags (nodes suspended_resolved_state 2) = flags (nodes suspended_state 2)"
proof -
  have mem: "(hook_promiseResolve, Observer_onPromiseResolve, RESOLVED) \<in>
             {(hook_before, Observer_onBefore, PRE_EXECUTION),
              (hook_after, Observer_onAfter, POST_EXECUTION),
              (hook_promiseResolve, Observer_onPromiseResolve, RESOLVED)}"
    by simp
  have ends: "context_chain_ends 2 suspended_state"
    by (simp add: context_chain_ends_def suspended_state_def init_sys_def new_node_def
          numeral_2_eq_2)
  have ctx: "fiberRef suspended_state (executionAsyncResource suspended_state) = Some 2"
    and own: "own_or_target (nodes suspended_state) 2 2 = None"
    by (simp_all add: suspended_state_def init_sys_def new_node_def own_or_target_def)
  have lk: "locate 2 suspended_state 2 = Some 1"
    by (simp add: locate_def suspended_state_def init_sys_def new_node_def own_or_target_def
          numeral_2_eq_2)
  note inst = hook_callbacks [OF mem, of 2 suspended_state 2 "Return ()" suspended_resolved_state]
  from conjunct1 [OF inst] ends
  have ret: "\<exists>r s'. hook_promiseResolve 2 2 suspended_state = Some (r, s')" by blast
  have c: "flags (nodes suspended_resolved_state 1) = flags (nodes suspended_state 1) OR RESOLVED \<and>
           (\<forall>a. a \<noteq> 1 \<longrightarrow> flags (nodes suspended_resolved_state a) = flags (nodes suspended_state a))"
    using conjunct2 [OF inst] hook_promiseResolve_suspended_state
    unfolding lk option.case by blast
  then have "flags (nodes suspended_resolved_state 2) = flags (nodes suspended_state 2)"
    by simp
  with c lk ends ctx own hook_promiseResolve_suspended_state show ?thesis
    by blast
qed

section \<open>What fiberWatchdog, the init callback, taint and the fiber's methods keep\<close>

lemma attach_target_step: "attach_target w t st s = (r, s') \<Longrightarrow> node_step s s'"
  by (auto simp: attach_target_def Let_def split: prod.splits outcome.splits if_splits
        dest!: observe_step watchdog_step_node_step [OF assertFiberOwnership_step]
        intro: node_step_trans watchdog_step_node_step [OF pending_add_step])

lemma attach_root_targets_step: "attach_root_targets w ts st s = (r, s') \<Longrightarrow> node_step s s'"
proof (induction ts arbitrary: st s)
  case Nil
  then show ?case by (simp add: node_step_refl)
next
  case (Cons t ts)
  then show ?case
    by (auto split: if_splits prod.splits outcome.splits
          dest!: attach_target_step intro: node_step_trans)
qed

lemma attach_pointer_targets_step:
  "attach_pointer_targets w ts st s = (r, s') \<Longrightarrow> node_step s s'"
proof (induction ts arbitrary: st s)
  case Nil
  then show ?case by (simp add: node_step_refl)
next
  case (Cons t ts)
  then show ?case
    by (auto split: if_splits prod.splits outcome.splits
          dest!: attach_target_step intro: node_step_trans)
qed

lemma attach_descendants_step:
  "attach_descendants k w st s = Some (r, s') \<Longrightarrow> node_step s s'"
proof (induction k w st s rule: attach_descendants.induct)
  case (1 k w s)
  then show ?case by (simp add: node_step_refl)
next
  case (2 w x xs s)
  then show ?case by simp
next
  case (3 k w x xs s)
  let ?res = "attach_pointer_targets w
                (map_values (executionTargets (nodes s (last (x # xs))))) (butlast (x # xs)) s"
  obtain out s1 where res: "?res = (out, s1)" by (cases ?res)
  have a: "node_step s s1" by (rule attach_pointer_targets_step [OF res])
  show ?case
  proof (cases out)
    case (Throw e)
    with "3.prems" res a show ?thesis by (simp add: Let_def)
  next
    case (Return stack2)
    with "3.prems" res have "attach_descendants k w stack2 s1 = Some (r, s')"
      by (simp add: Let_def)
    from "3.IH" [OF refl refl res [symmetric] Return this] have "node_step s1 s'" .
    with a show ?thesis by (rule node_step_trans)
  qed
qed

lemma fiberWatchdog_step:
  "fiberWatchdog k f ab s = Some (r, s') \<Longrightarrow> alloc_step X s s'"
proof -
  assume h: "fiberWatchdog k f ab s = Some (r, s')"
  let ?s1 = "root_inactive f s"
  from h obtain ids where ids: "parentFiberIds k (fibers ?s1) f = Some ids"
    by (cases "parentFiberIds k (fibers ?s1) f") (simp_all add: fiberWatchdog_def Let_def)
  let ?w = "next_watchdog ?s1"
  let ?wd = "\<lparr>fiber_w = f, abort = ab, parentFiberIds_w = ids,
              pendingExecutionTargets = [], watchdogImmediate = True,
              watchdogResult = Pending, fiberId_o = fiberId_f (fibers ?s1 f)\<rparr>"
  let ?s2 = "?s1\<lparr>watchdogs := (watchdogs ?s1)(?w := ?wd), next_watchdog := ?w + 1\<rparr>"
  have a1: "alloc_step X s ?s1"
    by (rule node_step_alloc_step [OF root_inactive_step])
  have a2: "alloc_step X ?s1 ?s2"
    by (simp add: alloc_step_def)
  have fin: "\<And>t. node_step ?s2 t \<Longrightarrow> alloc_step X s (root_inactive f t)"
  proof -
    fix t assume "node_step ?s2 t"
    then have "node_step ?s2 (root_inactive f t)"
      by (rule node_step_trans [OF _ root_inactive_step])
    then have "alloc_step X ?s2 (root_inactive f t)" by (rule node_step_alloc_step)
    with a1 a2 show "alloc_step X s (root_inactive f t)"
      by (blast intro: alloc_step_trans)
  qed
  obtain out s3 where at: "attach_root_targets ?w
        (map_values (executionTargets (nodes ?s2 (root (fibers ?s2 f))))) [] ?s2 = (out, s3)"
    by (cases "attach_root_targets ?w
        (map_values (executionTargets (nodes ?s2 (root (fibers ?s2 f))))) [] ?s2")
  have n3: "node_step ?s2 s3" by (rule attach_root_targets_step [OF at])
  show ?thesis
  proof (cases out)
    case (Throw e)
    with h ids at have "s' = root_inactive f s3"
      by (simp add: fiberWatchdog_def Let_def)
    with fin [OF n3] show ?thesis by simp
  next
    case (Return stack)
    with h ids at obtain out4 s4 where d: "attach_descendants k ?w stack s3 = Some (out4, s4)"
      and s': "s' = root_inactive f s4"
      by (cases "attach_descendants k ?w stack s3")
         (auto simp: fiberWatchdog_def Let_def split: outcome.splits)
    have "node_step s3 s4" by (rule attach_descendants_step [OF d])
    with n3 have "node_step ?s2 s4" by (rule node_step_trans)
    from fin [OF this] s' show ?thesis by simp
  qed
qed

lemma taint_fiberId:
  "taintAsyncResourceGraph k a msk fl h = Some h' \<Longrightarrow> \<forall>x. fiberId (h' x) = fiberId (h x)"
  "taintTargets k ts msk fl h = Some h' \<Longrightarrow> \<forall>x. fiberId (h' x) = fiberId (h x)"
proof (induction k a msk fl h and k ts msk fl h arbitrary: h' and h'
       rule: taintAsyncResourceGraph_taintTargets.induct)
  case (1 a msk fl h)
  then show ?case by simp
next
  case (2 k a msk fl h)
  let ?h1 = "h(a := (h a)\<lparr>flags := flags (h a) OR fl\<rparr>)"
  show ?case
  proof (cases "(flags (h a) AND msk) AND fl = 0")
    case False
    with "2.prems" show ?thesis by simp
  next
    case True
    have f1: "\<forall>x. fiberId (?h1 x) = fiberId (h x)" by simp
    from "2.prems" True obtain h2 where
      e: "taintTargets k (map_values (executionTargets (?h1 a))) msk fl ?h1 = Some h2"
      and t: "taintTargets k (map_values (triggerTargets (h2 a))) msk fl h2 = Some h'"
      by (auto simp: Let_def split: option.splits)
    from "2.IH"(1) [OF True refl e] have f2: "\<forall>x. fiberId (h2 x) = fiberId (?h1 x)" .
    from "2.IH"(2) [OF True refl e t] have f3: "\<forall>x. fiberId (h' x) = fiberId (h2 x)" .
    from f1 f2 f3 show ?thesis by simp
  qed
next
  case (3 k msk fl h)
  then show ?case by simp
next
  case (4 k t ts msk fl h)
  from "4.prems" obtain h1 where a: "taintAsyncResourceGraph k t msk fl h = Some h1"
    and b: "taintTargets k ts msk fl h1 = Some h'"
    by (auto split: option.splits)
  from "4.IH"(1) [OF a] have f1: "\<forall>x. fiberId (h1 x) = fiberId (h x)" .
  from "4.IH"(2) [OF a b] have f2: "\<forall>x. fiberId (h' x) = fiberId (h1 x)" .
  from f1 f2 show ?case by simp
qed

lemma abort_listener_step: "abort_listener k w s = Some s' \<Longrightarrow> node_step s s'"
  by (auto simp: abort_listener_def node_step_def settled_kept_def closure_kept_def split: option.splits
        dest: taint_fiberId(1))

lemma Node_onExecute_step:
  "Node_onExecute k this aid ty trig resource fr s = Some (r, s') \<Longrightarrow> alloc_step X s s'"
  by (auto simp: Node_onExecute_def Let_def alloc_step_def node_step_def settled_kept_def closure_kept_def
        split: option.splits if_splits dest!: Observer_onInit_step)

lemma hook_init_step:
  "hook_init k aid ty trig resource fr s = Some (r, s') \<Longrightarrow> alloc_step X s s'"
proof -
  assume h: "hook_init k aid ty trig resource fr s = Some (r, s')"
  have hk: "\<And>t b. alloc_step X t (t\<lparr>hookActive := b\<rparr>)"
    by (simp add: alloc_step_def)
  show ?thesis
  proof (cases "hookActive s")
    case True
    with h show ?thesis by (simp add: hook_init_def alloc_step_refl)
  next
    case False
    let ?s1 = "s\<lparr>hookActive := True\<rparr>"
    show ?thesis
    proof (cases "fiberRef ?s1 (executionAsyncResource ?s1)")
      case None
      with h False have "s' = ?s1\<lparr>hookActive := False\<rparr>"
        by (simp add: hook_init_def Let_def)
      then show ?thesis by (simp add: alloc_step_def)
    next
      case (Some e)
      with h False obtain s2 where
        ex: "Node_onExecute k e aid ty trig resource fr ?s1 = Some (r, s2)"
        and s': "s' = s2\<lparr>hookActive := False\<rparr>"
        by (auto simp: hook_init_def Let_def split: option.splits)
      have "alloc_step X ?s1 s2" by (rule Node_onExecute_step [OF ex])
      with hk [of s True] have "alloc_step X s s2" by (rule alloc_step_trans)
      with hk [of s2 False] show ?thesis unfolding s' by (blast intro: alloc_step_trans)
    qed
  qed
qed

lemma AsyncResourceFiber_new_step: "alloc_step X s (snd (AsyncResourceFiber_new fr s))"
  by (simp add: AsyncResourceFiber_new_def Let_def alloc_step_def split: option.splits)

lemma AsyncResourceFiber_new_root:
  "root (fibers (snd (AsyncResourceFiber_new fr s)) (fst (AsyncResourceFiber_new fr s))) =
     (case fiberRef s (executionAsyncResource s) of Some r \<Rightarrow> r | None \<Rightarrow> next_node s)"
  by (simp add: AsyncResourceFiber_new_def Let_def split: option.splits)

lemma Fiber_enable_step: "alloc_step {root (fibers s f)} s (Fiber_enable f s)"
  by (simp add: Fiber_enable_def Let_def alloc_step_def)

lemma Fiber_disable_step: "alloc_step {root (fibers s f)} s (Fiber_disable f s)"
  by (simp add: Fiber_disable_def Let_def alloc_step_def)

lemma enable_step: "alloc_step (stamps (Op_enable fr) s) s (snd (enable fr s))"
proof (cases "getFiber s")
  case (Some f)
  then show ?thesis by (simp add: enable_def alloc_step_refl)
next
  case None
  obtain f s1 where n: "AsyncResourceFiber_new fr s = (f, s1)"
    by (cases "AsyncResourceFiber_new fr s")
  let ?X = "stamps (Op_enable fr) s"
  have a: "alloc_step ?X s s1"
    using AsyncResourceFiber_new_step [of ?X s fr] n by simp
  have rt: "root (fibers s1 f) =
              (case fiberRef s (executionAsyncResource s) of Some r \<Rightarrow> r | None \<Rightarrow> next_node s)"
    using AsyncResourceFiber_new_root [of fr s] n by simp
  have "alloc_step ?X s (Fiber_enable f s1)"
    unfolding alloc_step_def
  proof (intro conjI allI impI)
    fix a assume lt: "a < next_node s" and nx: "a \<notin> ?X"
    from rt lt nx None have ne: "a \<noteq> root (fibers s1 f)"
      by (auto split: option.splits)
    from a lt nx have "fiberId (nodes s1 a) = fiberId (nodes s a)"
      by (simp add: alloc_step_def)
    moreover from ne have "fiberId (nodes (Fiber_enable f s1) a) = fiberId (nodes s1 a)"
      by (simp add: Fiber_enable_def Let_def)
    ultimately show "fiberId (nodes (Fiber_enable f s1) a) = fiberId (nodes s a)" by simp
  next
    fix w assume "w < next_watchdog s" and "watchdogResult (watchdogs s w) \<noteq> Pending"
    with a have "watchdogResult (watchdogs s1 w) = watchdogResult (watchdogs s w)"
      by (simp add: alloc_step_def)
    moreover have "watchdogs (Fiber_enable f s1) = watchdogs s1"
      by (simp add: Fiber_enable_def Let_def)
    ultimately show "watchdogResult (watchdogs (Fiber_enable f s1) w) = watchdogResult (watchdogs s w)"
      by simp
  next
    from a have "next_node s \<le> next_node s1" by (simp add: alloc_step_def)
    moreover have "next_node (Fiber_enable f s1) = next_node s1"
      by (simp add: Fiber_enable_def Let_def)
    ultimately show "next_node s \<le> next_node (Fiber_enable f s1)" by simp
  next
    from a have "next_watchdog s \<le> next_watchdog s1" by (simp add: alloc_step_def)
    moreover have "next_watchdog (Fiber_enable f s1) = next_watchdog s1"
      by (simp add: Fiber_enable_def Let_def)
    ultimately show "next_watchdog s \<le> next_watchdog (Fiber_enable f s1)" by simp
  qed
  with None n show ?thesis by (simp add: enable_def)
qed

lemma disable_step: "alloc_step (stamps Op_disable s) s (snd (disable s))"
  by (cases "getFiber s") (simp_all add: disable_def alloc_step_refl Fiber_disable_step)

lemma step_alloc_step: "step k op s = Some s' \<Longrightarrow> alloc_step (stamps op s) s s'"
proof (cases op)
  case (Op_new fr)
  assume "step k op s = Some s'"
  with Op_new show ?thesis using AsyncResourceFiber_new_step [of "{}" s fr] by auto
next
  case (Op_Fiber_enable f)
  assume "step k op s = Some s'"
  with Op_Fiber_enable show ?thesis using Fiber_enable_step [of s f] by auto
next
  case (Op_Fiber_disable f)
  assume "step k op s = Some s'"
  with Op_Fiber_disable show ?thesis using Fiber_disable_step [of s f] by auto
next
  case (Op_enable fr)
  assume "step k op s = Some s'"
  with Op_enable show ?thesis using enable_step [of fr s] by auto
next
  case Op_disable
  assume "step k op s = Some s'"
  with Op_disable show ?thesis using disable_step [of s] by auto
next
  case (Op_fiberWatchdog f ab)
  assume "step k op s = Some s'"
  with Op_fiberWatchdog show ?thesis by (auto dest: fiberWatchdog_step)
next
  case (Op_init aid ty trig resource fr)
  assume "step k op s = Some s'"
  with Op_init show ?thesis by (auto dest: hook_init_step)
next
  case (Op_before aid)
  assume "step k op s = Some s'"
  with Op_before show ?thesis by (auto dest!: hook_before_step intro: node_step_alloc_step)
next
  case (Op_after aid)
  assume "step k op s = Some s'"
  with Op_after show ?thesis by (auto dest!: hook_after_step intro: node_step_alloc_step)
next
  case (Op_promiseResolve aid)
  assume "step k op s = Some s'"
  with Op_promiseResolve show ?thesis
    by (auto dest!: hook_promiseResolve_step intro: node_step_alloc_step)
next
  case (Op_stallWatchdog w)
  assume "step k op s = Some s'"
  with Op_stallWatchdog show ?thesis
    using node_step_alloc_step [OF watchdog_step_node_step [OF stallWatchdog_step], of "{}" s w]
    by auto
next
  case (Op_promise_onFulfilled w v)
  assume "step k op s = Some s'"
  with Op_promise_onFulfilled show ?thesis
    using node_step_alloc_step [OF watchdog_step_node_step [OF promise_onFulfilled_step], of "{}" s w v]
    by auto
next
  case (Op_promise_onRejected w e)
  assume "step k op s = Some s'"
  with Op_promise_onRejected show ?thesis
    using node_step_alloc_step [OF watchdog_step_node_step [OF promise_onRejected_step], of "{}" s w e]
    by auto
next
  case (Op_abort_listener w)
  assume "step k op s = Some s'"
  with Op_abort_listener show ?thesis
    by (auto dest!: abort_listener_step intro: node_step_alloc_step)
next
  case (Env_context resource aid)
  assume "step k op s = Some s'"
  with Env_context show ?thesis by (auto simp: alloc_step_def)
next
  case (Env_abort sg e)
  assume "step k op s = Some s'"
  with Env_abort show ?thesis by (auto simp: alloc_step_def)
qed


section \<open>Every closure holds the parent chain of its fiber\<close>

text \<open>
  The parent reference and the id of a fiber are set by its constructor and never
  change, and a closure's list of parent fiber ids is never assigned again. So in every
  state that the operations reach from the initial state, when each is applied to
  fibers that exist, every closure holds the parent chain of its fiber.
\<close>

lemma node_step_closure_kept: "node_step s s' \<Longrightarrow> closure_kept s s'"
  by (simp add: node_step_def)

lemma parentFiberIds_cong:
  "(\<And>g. parent (fs' g) = parent (fs g) \<and> fiberId_f (fs' g) = fiberId_f (fs g)) \<Longrightarrow>
     parentFiberIds k fs' f = parentFiberIds k fs f"
  by (induction k arbitrary: f) (simp_all split: option.splits)

lemma parentFiberIds_new:
  assumes below: "\<forall>g p. parent (fs g) = Some p \<longrightarrow> p < n"
  shows "f < n \<Longrightarrow> parentFiberIds k (fs(n := x)) f = parentFiberIds k fs f"
proof (induction k arbitrary: f)
  case 0
  then show ?case by simp
next
  case (Suc k)
  from Suc.prems have ff: "(fs(n := x)) f = fs f" by simp
  show ?case
  proof (cases "parent (fs f)")
    case None
    then show ?thesis by (simp only: parentFiberIds.simps ff option.case)
  next
    case (Some p)
    with below have pn: "p < n" by blast
    then have fp: "(fs(n := x)) p = fs p" by simp
    from Suc.IH [OF pn] have "parentFiberIds k (fs(n := x)) p = parentFiberIds k fs p" .
    with Some show ?thesis by (simp only: parentFiberIds.simps ff fp option.case)
  qed
qed

lemma fiberWatchdog_captures_parent_chain:
  assumes h: "fiberWatchdog k f ab s = Some (r, s')"
  shows "next_watchdog s' = Suc (next_watchdog s) \<and>
         (r = Return (next_watchdog s) \<or> (\<exists>e. r = Throw e)) \<and>
         fiber_w (watchdogs s' (next_watchdog s)) = f \<and>
         parent_chain_captured k s' (next_watchdog s) \<and>
         fibers s' = fibers s \<and> next_fiber s' = next_fiber s \<and> fiberStack s' = fiberStack s \<and>
         (\<forall>w. w \<noteq> next_watchdog s \<longrightarrow>
              fiber_w (watchdogs s' w) = fiber_w (watchdogs s w) \<and>
              parentFiberIds_w (watchdogs s' w) = parentFiberIds_w (watchdogs s w))"
proof -
  let ?s1 = "root_inactive f s"
  from h obtain ids where ids: "parentFiberIds k (fibers ?s1) f = Some ids"
    by (cases "parentFiberIds k (fibers ?s1) f") (simp_all add: fiberWatchdog_def Let_def)
  let ?w = "next_watchdog ?s1"
  let ?wd = "\<lparr>fiber_w = f, abort = ab, parentFiberIds_w = ids,
              pendingExecutionTargets = [], watchdogImmediate = True,
              watchdogResult = Pending, fiberId_o = fiberId_f (fibers ?s1 f)\<rparr>"
  let ?s2 = "?s1\<lparr>watchdogs := (watchdogs ?s1)(?w := ?wd), next_watchdog := ?w + 1\<rparr>"
  have w: "?w = next_watchdog s" by (simp add: root_inactive_def)
  have fin: "\<And>t. node_step ?s2 t \<Longrightarrow>
               next_watchdog (root_inactive f t) = Suc (next_watchdog s) \<and>
               fiber_w (watchdogs (root_inactive f t) (next_watchdog s)) = f \<and>
               parent_chain_captured k (root_inactive f t) (next_watchdog s) \<and>
               fibers (root_inactive f t) = fibers s \<and>
               next_fiber (root_inactive f t) = next_fiber s \<and>
               fiberStack (root_inactive f t) = fiberStack s \<and>
               (\<forall>w. w \<noteq> next_watchdog s \<longrightarrow>
                    fiber_w (watchdogs (root_inactive f t) w) = fiber_w (watchdogs s w) \<and>
                    parentFiberIds_w (watchdogs (root_inactive f t) w) = parentFiberIds_w (watchdogs s w))"
  proof -
    fix t assume "node_step ?s2 t"
    then have "closure_kept ?s2 t" and "next_watchdog t = next_watchdog ?s2"
      by (simp_all add: node_step_def)
    with ids show "?thesis t"
      by (simp add: closure_kept_def parent_chain_captured_def root_inactive_def)
  qed
  obtain out s3 where at: "attach_root_targets ?w
        (map_values (executionTargets (nodes ?s2 (root (fibers ?s2 f))))) [] ?s2 = (out, s3)"
    by (cases "attach_root_targets ?w
        (map_values (executionTargets (nodes ?s2 (root (fibers ?s2 f))))) [] ?s2")
  have n3: "node_step ?s2 s3" by (rule attach_root_targets_step [OF at])
  show ?thesis
  proof (cases out)
    case (Throw e)
    with h ids at have "s' = root_inactive f s3" and "r = Throw e"
      by (simp_all add: fiberWatchdog_def Let_def)
    with fin [OF n3] show ?thesis by simp
  next
    case (Return stack)
    with h ids at obtain out4 s4 where d: "attach_descendants k ?w stack s3 = Some (out4, s4)"
      and s': "s' = root_inactive f s4"
      and r: "r = (case out4 of Throw e \<Rightarrow> Throw e | Return u \<Rightarrow> Return ?w)"
      by (cases "attach_descendants k ?w stack s3")
         (auto simp: fiberWatchdog_def Let_def split: outcome.splits)
    have "node_step s3 s4" by (rule attach_descendants_step [OF d])
    with n3 have "node_step ?s2 s4" by (rule node_step_trans)
    from fin [OF this] s' r w show ?thesis by (cases out4) simp_all
  qed
qed

lemma closure_kept_fibers_created:
  "closure_kept s s' \<Longrightarrow> next_watchdog s' = next_watchdog s \<Longrightarrow>
     fibers_created k s \<Longrightarrow> fibers_created k s'"
  by (simp add: fibers_created_def closure_kept_def parent_chain_captured_def)

lemma node_step_fibers_created: "node_step s s' \<Longrightarrow> fibers_created k s \<Longrightarrow> fibers_created k s'"
  by (rule closure_kept_fibers_created) (simp_all add: node_step_def)

lemma node_step_fields:
  "node_step s s' \<Longrightarrow>
     fibers s' = fibers s \<and> next_fiber s' = next_fiber s \<and> fiberStack s' = fiberStack s \<and>
     next_watchdog s' = next_watchdog s"
  "node_step s s' \<Longrightarrow> fiber_w (watchdogs s' w) = fiber_w (watchdogs s w)"
  "node_step s s' \<Longrightarrow> parentFiberIds_w (watchdogs s' w) = parentFiberIds_w (watchdogs s w)"
  by (simp_all add: node_step_def closure_kept_def)

lemma Node_onExecute_fields:
  "Node_onExecute k this aid ty trig resource fr s = Some (r, s') \<Longrightarrow>
     fibers s' = fibers s \<and> next_fiber s' = next_fiber s \<and> fiberStack s' = fiberStack s \<and>
     next_watchdog s' = next_watchdog s"
  by (auto simp: Node_onExecute_def Let_def
        split: option.splits if_splits dest!: Observer_onInit_step node_step_fields(1))

lemma Node_onExecute_fiber_w:
  "Node_onExecute k this aid ty trig resource fr s = Some (r, s') \<Longrightarrow>
     fiber_w (watchdogs s' w) = fiber_w (watchdogs s w)"
  by (auto simp: Node_onExecute_def Let_def
        split: option.splits if_splits dest!: Observer_onInit_step node_step_fields(2) [where w = w])

lemma Node_onExecute_parentFiberIds_w:
  "Node_onExecute k this aid ty trig resource fr s = Some (r, s') \<Longrightarrow>
     parentFiberIds_w (watchdogs s' w) = parentFiberIds_w (watchdogs s w)"
  by (auto simp: Node_onExecute_def Let_def
        split: option.splits if_splits dest!: Observer_onInit_step node_step_fields(3) [where w = w])

lemma Node_onExecute_closure:
  "Node_onExecute k this aid ty trig resource fr s = Some (r, s') \<Longrightarrow>
     closure_kept s s' \<and> next_watchdog s' = next_watchdog s"
  unfolding closure_kept_def
  using Node_onExecute_fields [of k this aid ty trig resource fr s r s']
        Node_onExecute_fiber_w [of k this aid ty trig resource fr s r s']
        Node_onExecute_parentFiberIds_w [of k this aid ty trig resource fr s r s']
  by simp

lemma hook_init_closure:
  "hook_init k aid ty trig resource fr s = Some (r, s') \<Longrightarrow>
     closure_kept s s' \<and> next_watchdog s' = next_watchdog s"
  by (auto simp: hook_init_def Let_def closure_kept_def
        split: option.splits if_splits dest!: Node_onExecute_closure)

lemma find_in_set: "find P xs = Some x \<Longrightarrow> x \<in> set xs"
  by (induction xs) (auto split: if_splits)

lemma getFiber_on_stack: "getFiber s = Some g \<Longrightarrow> g \<in> set (fiberStack s)"
  using find_in_set [of "\<lambda>f. active_f (fibers s f)" "rev (fiberStack s)" g]
  by (simp add: getFiber_def)

lemma set_splice: "x \<in> set (splice xs i d) \<Longrightarrow> x \<in> set xs"
  by (auto simp: splice_def Let_def dest: in_set_takeD in_set_dropD)

lemma AsyncResourceFiber_new_fields:
  "fst (AsyncResourceFiber_new fr s) = next_fiber s"
  "next_fiber (snd (AsyncResourceFiber_new fr s)) = Suc (next_fiber s)"
  "fiberStack (snd (AsyncResourceFiber_new fr s)) = fiberStack s"
  "watchdogs (snd (AsyncResourceFiber_new fr s)) = watchdogs s"
  "next_watchdog (snd (AsyncResourceFiber_new fr s)) = next_watchdog s"
  "g \<noteq> next_fiber s \<Longrightarrow> fibers (snd (AsyncResourceFiber_new fr s)) g = fibers s g"
  "parent (fibers (snd (AsyncResourceFiber_new fr s)) (next_fiber s)) = getFiber s"
  by (simp_all add: AsyncResourceFiber_new_def Let_def getFiber_def split: option.splits)

lemma AsyncResourceFiber_new_created:
  assumes c: "fibers_created k s"
  shows "fibers_created k (snd (AsyncResourceFiber_new fr s)) \<and>
         fst (AsyncResourceFiber_new fr s) = next_fiber s \<and>
         next_fiber (snd (AsyncResourceFiber_new fr s)) = Suc (next_fiber s)"
proof -
  let ?n = "next_fiber s"
  let ?s' = "snd (AsyncResourceFiber_new fr s)"
  note nf = AsyncResourceFiber_new_fields [where fr = fr and s = s]
  have fs: "fibers ?s' = (fibers s)(?n := fibers ?s' ?n)"
    by (rule ext) (simp add: nf)
  from c have st: "\<forall>g \<in> set (fiberStack s). g < ?n"
    and below: "\<forall>g p. parent (fibers s g) = Some p \<longrightarrow> p < ?n"
    and wd: "\<forall>w. w < next_watchdog s \<longrightarrow>
               fiber_w (watchdogs s w) < ?n \<and> parent_chain_captured k s w"
    by (simp_all add: fibers_created_def)
  have p': "\<forall>g p. parent (fibers ?s' g) = Some p \<longrightarrow> p < Suc ?n"
  proof (intro allI impI)
    fix g p assume h: "parent (fibers ?s' g) = Some p"
    show "p < Suc ?n"
    proof (cases "g = ?n")
      case True
      with h have "getFiber s = Some p" by (simp add: nf)
      from getFiber_on_stack [OF this] st show ?thesis by auto
    next
      case False
      with h have "parent (fibers s g) = Some p" by (simp add: nf)
      with below show ?thesis by (auto simp: less_Suc_eq)
    qed
  qed
  have w': "\<forall>w. w < next_watchdog ?s' \<longrightarrow>
              fiber_w (watchdogs ?s' w) < Suc ?n \<and> parent_chain_captured k ?s' w"
  proof (intro allI impI)
    fix w assume "w < next_watchdog ?s'"
    with wd have lt: "fiber_w (watchdogs s w) < ?n" and cap: "parent_chain_captured k s w"
      by (simp_all add: nf)
    from parentFiberIds_new [OF below lt, of k "fibers ?s' ?n"] fs
    have "parentFiberIds k (fibers ?s') (fiber_w (watchdogs s w)) =
            parentFiberIds k (fibers s) (fiber_w (watchdogs s w))"
      by simp
    with cap lt show "fiber_w (watchdogs ?s' w) < Suc ?n \<and> parent_chain_captured k ?s' w"
      by (simp add: parent_chain_captured_def nf)
  qed
  from st have "\<forall>g \<in> set (fiberStack ?s'). g < Suc ?n" by (auto simp: nf)
  with p' w' show ?thesis
    by (simp add: fibers_created_def nf)
qed

lemma Fiber_enable_created:
  assumes c: "fibers_created k s" and f: "f < next_fiber s"
  shows "fibers_created k (Fiber_enable f s)"
proof (cases "active_f (fibers s f)")
  case True
  with c show ?thesis by (simp add: Fiber_enable_def)
next
  case False
  let ?s' = "Fiber_enable f s"
  from False have fs: "fibers ?s' = (fibers s)(f := (fibers s f)\<lparr>active_f := True\<rparr>)"
    and rest: "next_fiber ?s' = next_fiber s" "fiberStack ?s' = fiberStack s @ [f]"
              "watchdogs ?s' = watchdogs s" "next_watchdog ?s' = next_watchdog s"
    by (simp_all add: Fiber_enable_def Let_def)
  have same: "\<And>g. parent (fibers ?s' g) = parent (fibers s g) \<and>
                    fiberId_f (fibers ?s' g) = fiberId_f (fibers s g)"
    by (simp add: fs)
  from parentFiberIds_cong [of "fibers ?s'" "fibers s" k, OF same] c f rest same show ?thesis
    by (simp add: fibers_created_def parent_chain_captured_def)
qed

lemma Fiber_disable_created:
  assumes c: "fibers_created k s"
  shows "fibers_created k (Fiber_disable f s)"
proof -
  let ?s' = "Fiber_disable f s"
  have fs: "fibers ?s' = (fibers s)(f := (fibers s f)\<lparr>active_f := False\<rparr>)"
    and rest: "next_fiber ?s' = next_fiber s"
              "fiberStack ?s' = splice (fiberStack s) (indexOf (fiberStack s) f) 1"
              "watchdogs ?s' = watchdogs s" "next_watchdog ?s' = next_watchdog s"
    by (simp_all add: Fiber_disable_def Let_def)
  have same: "\<And>g. parent (fibers ?s' g) = parent (fibers s g) \<and>
                    fiberId_f (fibers ?s' g) = fiberId_f (fibers s g)"
    by (simp add: fs)
  have st: "\<forall>g \<in> set (fiberStack ?s'). g < next_fiber ?s'"
    using c rest by (auto simp: fibers_created_def dest: set_splice)
  from parentFiberIds_cong [of "fibers ?s'" "fibers s" k, OF same] c rest same st show ?thesis
    by (simp add: fibers_created_def parent_chain_captured_def)
qed

lemma fiberWatchdog_created:
  assumes h: "fiberWatchdog k f ab s = Some (r, s')"
    and c: "fibers_created k s" and f: "f < next_fiber s"
  shows "fibers_created k s'"
proof -
  note fw = fiberWatchdog_captures_parent_chain [OF h]
  show ?thesis
    unfolding fibers_created_def
  proof (intro conjI allI impI ballI)
    fix g assume "g \<in> set (fiberStack s')"
    with fw c show "g < next_fiber s'" by (simp add: fibers_created_def)
  next
    fix g p assume "parent (fibers s' g) = Some p"
    with fw c show "p < next_fiber s'" by (simp add: fibers_created_def)
  next
    fix w assume "w < next_watchdog s'"
    with fw have "w < next_watchdog s \<or> w = next_watchdog s" by auto
    then show "fiber_w (watchdogs s' w) < next_fiber s'"
      using fw c f by (auto simp: fibers_created_def)
  next
    fix w assume "w < next_watchdog s'"
    with fw have "w < next_watchdog s \<or> w = next_watchdog s" by auto
    then show "parent_chain_captured k s' w"
    proof
      assume lt: "w < next_watchdog s"
      with c have "parent_chain_captured k s w" by (simp add: fibers_created_def)
      with fw lt show ?thesis by (simp add: parent_chain_captured_def)
    next
      assume "w = next_watchdog s"
      with fw show ?thesis by simp
    qed
  qed
qed

lemma step_fibers_created:
  assumes st: "step k op s = Some s'" and c: "fibers_created k s" and ap: "applicable s op"
  shows "fibers_created k s'"
proof (cases op)
  case (Op_new fr)
  with st AsyncResourceFiber_new_created [OF c, of fr] show ?thesis by auto
next
  case (Op_Fiber_enable f)
  with st ap Fiber_enable_created [OF c, of f] show ?thesis by auto
next
  case (Op_Fiber_disable f)
  with st Fiber_disable_created [OF c, of f] show ?thesis by auto
next
  case (Op_enable fr)
  show ?thesis
  proof (cases "getFiber s")
    case (Some g)
    with st Op_enable c show ?thesis by (simp add: enable_def)
  next
    case None
    obtain f s1 where n: "AsyncResourceFiber_new fr s = (f, s1)"
      by (cases "AsyncResourceFiber_new fr s")
    with AsyncResourceFiber_new_created [OF c, of fr]
    have c1: "fibers_created k s1" and f: "f < next_fiber s1" by simp_all
    from st Op_enable None n have "s' = Fiber_enable f s1" by (simp add: enable_def)
    with Fiber_enable_created [OF c1 f] show ?thesis by simp
  qed
next
  case Op_disable
  with st c Fiber_disable_created [OF c] show ?thesis
    by (cases "getFiber s") (auto simp: disable_def)
next
  case (Op_fiberWatchdog f ab)
  with st ap obtain r where fw: "fiberWatchdog k f ab s = Some (r, s')" and lt: "f < next_fiber s"
    by auto
  from fw c lt show ?thesis by (rule fiberWatchdog_created)
next
  case (Op_init aid ty trig resource fr)
  with st obtain r where "hook_init k aid ty trig resource fr s = Some (r, s')" by auto
  from hook_init_closure [OF this] c show ?thesis
    by (blast intro: closure_kept_fibers_created)
next
  case (Op_before aid)
  with st obtain r where "hook_before k aid s = Some (r, s')" by auto
  from hook_before_step [OF this] c show ?thesis by (rule node_step_fibers_created)
next
  case (Op_after aid)
  with st obtain r where "hook_after k aid s = Some (r, s')" by auto
  from hook_after_step [OF this] c show ?thesis by (rule node_step_fibers_created)
next
  case (Op_promiseResolve aid)
  with st obtain r where "hook_promiseResolve k aid s = Some (r, s')" by auto
  from hook_promiseResolve_step [OF this] c show ?thesis by (rule node_step_fibers_created)
next
  case (Op_stallWatchdog w)
  with st have "s' = stallWatchdog w s" by simp
  with watchdog_step_node_step [OF stallWatchdog_step, of s w] c show ?thesis
    by (simp add: node_step_fibers_created)
next
  case (Op_promise_onFulfilled w v)
  with st have "s' = promise_onFulfilled w v s" by simp
  with watchdog_step_node_step [OF promise_onFulfilled_step, of s w v] c show ?thesis
    by (simp add: node_step_fibers_created)
next
  case (Op_promise_onRejected w e)
  with st have "s' = promise_onRejected w e s" by simp
  with watchdog_step_node_step [OF promise_onRejected_step, of s w e] c show ?thesis
    by (simp add: node_step_fibers_created)
next
  case (Op_abort_listener w)
  with st have "abort_listener k w s = Some s'" by simp
  from abort_listener_step [OF this] c show ?thesis by (rule node_step_fibers_created)
next
  case (Env_context resource aid)
  with st c show ?thesis by (auto simp: fibers_created_def parent_chain_captured_def)
next
  case (Env_abort sg e)
  with st c show ?thesis by (auto simp: fibers_created_def parent_chain_captured_def)
qed

lemma init_sys_fibers_created: "fibers_created k init_sys"
  by (simp add: fibers_created_def init_sys_def)

lemma run_fibers_created:
  "run k ops s = Some s' \<Longrightarrow> all_applicable k ops s \<Longrightarrow> fibers_created k s \<Longrightarrow>
     fibers_created k s'"
proof (induction ops arbitrary: s)
  case Nil
  then show ?case by simp
next
  case (Cons op ops)
  from Cons.prems(1) obtain s1 where st: "step k op s = Some s1" and rn: "run k ops s1 = Some s'"
    by (auto split: option.splits)
  from Cons.prems(2) st have ap: "applicable s op" and rest: "all_applicable k ops s1"
    by simp_all
  from step_fibers_created [OF st Cons.prems(3) ap] have "fibers_created k s1" .
  from Cons.IH [OF rn rest this] show ?case .
qed

lemma reached_parent_chain_captured:
  "run k ops init_sys = Some s \<Longrightarrow> all_applicable k ops init_sys \<Longrightarrow>
     w < next_watchdog s \<Longrightarrow> parent_chain_captured k s w"
  using run_fibers_created [OF _ _ init_sys_fibers_created, of k ops s]
  by (simp add: fibers_created_def)

section \<open>The fiberId of a node\<close>

lemma enabled_state_fields:
  "fiberStack enabled_state = [0]"
  "next_fiber enabled_state = Suc 0"
  "next_node enabled_state = Suc 0"
  "fiberRef enabled_state 0 = Some 0"
  "executionAsyncResource enabled_state = 0"
  "fibers enabled_state 0 = \<lparr>fiberId_f = 1, root = 0, active_f = True, parent = None, frame_f = None\<rparr>"
  "fiberId (nodes enabled_state 0) = 1"
  "fiberIdx enabled_state = 2"
  "hookEnabled enabled_state"
  by (simp_all add: enabled_state_def enable_def getFiber_def init_sys_def
        AsyncResourceFiber_new_def Fiber_enable_def Let_def new_node_def)

lemma created_state_fields:
  "fibers created_state (Suc 0) = \<lparr>fiberId_f = 2, root = 0, active_f = False, parent = Some 0, frame_f = None\<rparr>"
  "fiberId (nodes created_state 0) = 1"
  "next_node created_state = Suc 0"
  by (simp_all add: created_state_def AsyncResourceFiber_new_def Let_def enabled_state_fields
        getFiber_def)

text \<open>
  C3, as the claim states it, fails: the root node 0 of the root fiber was constructed
  with fiberId 1; a second fiber created in the same execution context has the same
  root, and its \<open>enable()\<close> assigns fiberId 2 to that node.
\<close>

theorem Fiber_enable_changes_root_fiberId:
  "root (fibers created_state 1) = 0 \<and>
   fiberId (nodes created_state 0) = 1 \<and>
   fiberId (nodes (Fiber_enable 1 created_state) 0) = 2"
  by (simp add: Fiber_enable_def Let_def created_state_fields)

text \<open>
  C3, amended. An operation changes the fiberId of an existing node only if it is
  \<open>enable\<close> or \<open>disable\<close> of a fiber (the method, or the exported function that calls
  it) and the node is that fiber's root: every operation leaves the fiberId of every
  other existing node as it was.
\<close>

theorem fiberId_changed_only_by_enable_disable:
  assumes "step k op s = Some s'"
      and "a < next_node s"
      and "a \<notin> stamps op s"
  shows "fiberId (nodes s' a) = fiberId (nodes s a)"
  using step_alloc_step [OF assms(1)] assms(2,3)
  by (simp add: alloc_step_def)

theorem fiberId_changed_only_by_enable_disable_witness:
  "step 1 (Op_promiseResolve 2) stall_state = Some resolved_state \<and>
   (1::nat) < next_node stall_state \<and>
   1 \<notin> stamps (Op_promiseResolve 2) stall_state \<and>
   fiberId (nodes resolved_state 1) = fiberId (nodes stall_state 1)"
proof -
  have st: "step 1 (Op_promiseResolve 2) stall_state = Some resolved_state"
    using hook_promiseResolve_stall_state by simp
  have lt: "(1::nat) < next_node stall_state"
    by (simp add: stall_state_def)
  have ns: "1 \<notin> stamps (Op_promiseResolve 2) stall_state"
    by simp
  from fiberId_changed_only_by_enable_disable [OF st lt ns] st lt ns show ?thesis
    by blast
qed

section \<open>The wrapped promise and the hook\<close>

text \<open>
  What the model of resolve and reject rests on. The callback promiseResolve, for an
  asyncId that the walk finds no node for, does what \<open>promiseResolve_reentered\<close>
  does. And the callback init creates no node in an execution context whose node is
  inactive, which is the state fiberWatchdog creates the wrapped promise in.
\<close>

lemma promiseResolve_callback_without_node:
  "hookEnabled s \<Longrightarrow> getAsyncResourceNode k s aid = Some None \<Longrightarrow>
     hook_promiseResolve k aid s = Some (Return (), promiseResolve_reentered s)"
  by (simp add: hook_promiseResolve_def promiseResolve_reentered_def Let_def
        getAsyncResourceNode_hookActive)

lemma init_callback_in_inactive_context:
  "fiberRef s (executionAsyncResource s) = Some e \<Longrightarrow> \<not> active (nodes s e) \<Longrightarrow>
     \<not> hookActive s \<Longrightarrow>
     hook_init k aid ty trig resource fr s = Some (Return (), s)"
  by (simp add: hook_init_def Node_onExecute_def Let_def)

section \<open>The wrapped result settles at most once\<close>







section \<open>A user function that throws\<close>

lemma remove1_append_last: "x \<notin> set xs \<Longrightarrow> remove1 x (xs @ [x]) = xs"
  by (induction xs) auto

lemma find_cong_set: "(\<And>x. x \<in> set xs \<Longrightarrow> P x = Q x) \<Longrightarrow> find P xs = find Q xs"
  by (induction xs) auto

lemma fiber_entry_fields:
  "fiberStack (fiber_entry fr s) = fiberStack s @ [next_fiber s]"
  "g \<noteq> next_fiber s \<Longrightarrow> active_f (fibers (fiber_entry fr s) g) = active_f (fibers s g)"
  by (simp_all add: fiber_entry_def AsyncResourceFiber_new_def Fiber_enable_def Let_def
        split: option.splits)

lemma Fiber_disable_fiberStack:
  "fiberStack (Fiber_disable f s) = splice (fiberStack s) (indexOf (fiberStack s) f) 1"
  by (simp add: Fiber_disable_def Let_def)

lemma fiber_throw:
  "fn (fiber_entry fr s) = (Throw e, s3) \<Longrightarrow>
     fiber k fn ab fr s = Some (Throw e, Fiber_disable (next_fiber s) s3)"
  by (simp add: fiber_def fiber_entry_def AsyncResourceFiber_new_def Let_def split: option.splits)

text \<open>
  C10, as the claim states it, fails for a function that changes the fiber stack
  itself: after \<open>enable()\<close> the stack holds the root fiber 0, which is the active
  fiber; a function that disables the root fiber and then throws leaves, after
  \<open>fiber\<close> has run its finally block, an empty stack and no active fiber.
\<close>

theorem fiber_throw_after_disabling_root:
  "fiberStack enabled_state = [0] \<and>
   getFiber enabled_state = Some 0 \<and>
   map_option fst (fiber 1 disable_root_and_throw None None enabled_state) = Some (Throw (Reason 0)) \<and>
   map_option (fiberStack \<circ> snd) (fiber 1 disable_root_and_throw None None enabled_state) = Some [] \<and>
   map_option (getFiber \<circ> snd) (fiber 1 disable_root_and_throw None None enabled_state) = Some None"
proof -
  have e: "fiberStack (fiber_entry None enabled_state) = [0, 1]"
    by (simp add: fiber_entry_fields enabled_state_fields)
  have d0: "fiberStack (Fiber_disable 0 (fiber_entry None enabled_state)) = [1]"
    by (simp add: Fiber_disable_fiberStack e splice_def)
  have d1: "fiberStack (Fiber_disable 1 (Fiber_disable 0 (fiber_entry None enabled_state))) = []"
    by (simp add: Fiber_disable_fiberStack e splice_def)
  have t: "fiber 1 disable_root_and_throw None None enabled_state =
             Some (Throw (Reason 0), Fiber_disable 1 (Fiber_disable 0 (fiber_entry None enabled_state)))"
    using fiber_throw [of disable_root_and_throw None enabled_state "Reason 0"
            "Fiber_disable 0 (fiber_entry None enabled_state)" 1 None]
    by (simp add: disable_root_and_throw_def enabled_state_fields)
  show ?thesis
    using t d1 by (simp add: getFiber_def enabled_state_fields)
qed

text \<open>
  C10, amended. For a function that throws and leaves the fiber stack and the active
  flag of every fiber as they were when it was called, \<open>fiber\<close> returns by throwing
  the same exception, after its finally block has disabled the new fiber: the fiber
  stack and the result of getFiber are what they were before the call, and the new
  fiber is not active. (The fibers on the stack are objects created earlier.)
\<close>

theorem fiber_throw_restores_stack:
  assumes "\<forall>g \<in> set (fiberStack s). g < next_fiber s"
      and "fn (fiber_entry fr s) = (Throw e, s3)"
      and "fiberStack s3 = fiberStack (fiber_entry fr s)"
      and "\<forall>g. active_f (fibers s3 g) = active_f (fibers (fiber_entry fr s) g)"
  shows "\<exists>s'. fiber k fn ab fr s = Some (Throw e, s') \<and>
              fiberStack s' = fiberStack s \<and>
              getFiber s' = getFiber s \<and>
              \<not> active_f (fibers s' (next_fiber s))"
proof -
  let ?f = "next_fiber s"
  let ?s' = "Fiber_disable ?f s3"
  from assms(1) have fresh: "?f \<notin> set (fiberStack s)" by auto
  have st3: "fiberStack s3 = fiberStack s @ [?f]"
    using assms(3) by (simp add: fiber_entry_fields)
  have "?f \<in> set (fiberStack s3)" by (simp add: st3)
  then have st': "fiberStack ?s' = remove1 ?f (fiberStack s3)"
    by (simp add: Fiber_disable_def splice_indexOf_in Let_def)
  then have stack: "fiberStack ?s' = fiberStack s"
    by (simp add: st3 remove1_append_last [OF fresh])
  have act: "\<And>g. g \<in> set (fiberStack s) \<Longrightarrow> active_f (fibers ?s' g) = active_f (fibers s g)"
  proof -
    fix g assume "g \<in> set (fiberStack s)"
    with fresh have ne: "g \<noteq> ?f" by auto
    then have "active_f (fibers ?s' g) = active_f (fibers s3 g)"
      by (simp add: Fiber_disable_def Let_def)
    also have "\<dots> = active_f (fibers (fiber_entry fr s) g)" using assms(4) by simp
    also have "\<dots> = active_f (fibers s g)" using ne by (rule fiber_entry_fields(2))
    finally show "active_f (fibers ?s' g) = active_f (fibers s g)" .
  qed
  have gf: "getFiber ?s' = getFiber s"
    unfolding getFiber_def stack
    by (rule find_cong_set) (simp add: act)
  have off: "\<not> active_f (fibers ?s' ?f)"
    by (simp add: Fiber_disable_def Let_def)
  have "fiber k fn ab fr s = Some (Throw e, ?s')"
    using assms(2) by (rule fiber_throw [of fn fr s e s3 k ab])
  with stack gf off show ?thesis by blast
qed

theorem fiber_throw_restores_stack_witness:
  "map_option fst (fiber 1 just_throw None None enabled_state) = Some (Throw (Reason 0)) \<and>
   map_option (fiberStack \<circ> snd) (fiber 1 just_throw None None enabled_state) = Some [0] \<and>
   map_option (getFiber \<circ> snd) (fiber 1 just_throw None None enabled_state) = Some (Some 0)"
proof -
  have a1: "\<forall>g \<in> set (fiberStack enabled_state). g < next_fiber enabled_state"
    by (simp add: enabled_state_fields)
  have a2: "just_throw (fiber_entry None enabled_state) = (Throw (Reason 0), fiber_entry None enabled_state)"
    by (simp add: just_throw_def)
  have gf: "getFiber enabled_state = Some 0"
    by (simp add: getFiber_def enabled_state_fields)
  have a3: "fiberStack (fiber_entry None enabled_state) = fiberStack (fiber_entry None enabled_state)"
    and a4: "\<forall>g. active_f (fibers (fiber_entry None enabled_state) g) =
                 active_f (fibers (fiber_entry None enabled_state) g)"
    by simp_all
  from fiber_throw_restores_stack
         [of enabled_state just_throw None "Reason 0" "fiber_entry None enabled_state" 1 None,
          OF a1 a2 a3 a4]
  obtain s' where "fiber 1 just_throw None None enabled_state = Some (Throw (Reason 0), s')"
    and "fiberStack s' = fiberStack enabled_state" and "getFiber s' = getFiber enabled_state"
    by auto
  then show ?thesis by (simp add: gf enabled_state_fields)
qed

section \<open>The example states arise from the module's operations\<close>

lemma enabled_state_reached: "run 1 [Op_enable None] init_sys = Some enabled_state"
  by (simp add: enabled_state_def)

lemma created_state_reached: "run 1 [Op_enable None, Op_new None] init_sys = Some created_state"
  by (simp add: created_state_def enabled_state_def)

lemma nested_state_reached:
  "run 1 [Op_enable None, Op_new None, Op_Fiber_enable 1, Op_new None, Op_Fiber_enable 2]
     init_sys = Some nested_state"
  by (simp add: nested_state_def enable_def getFiber_def init_sys_def
        AsyncResourceFiber_new_def Fiber_enable_def Let_def new_node_def numeral_2_eq_2)

lemmas run_defs =
  enable_def getFiber_def init_sys_def AsyncResourceFiber_new_def
  Fiber_enable_def Fiber_disable_def Let_def new_node_def hook_init_def Node_onExecute_def
  getAsyncResourceNode_def map_get_def map_values_def fiberWatchdog_def
  root_inactive_def attach_target_def observe_def isObserved_def set_notifyObserver_def
  assertFiberOwnership_def assertFiberError_def watchdogResult_reject_def promise_reject_def
  promiseResolve_reentered_def
  pending_add_def set_add_def splice_def
  INIT_def FINALIZED_def POST_EXECUTION_def RESOLVED_def fun_eq_iff
  numeral_2_eq_2 numeral_3_eq_3

text \<open>
  The fifth scenario of the tests: \<open>enable()\<close>, then \<open>fiber\<close> with a function that
  creates one promise (asyncId 2, triggered from the root context, asyncId 1).
\<close>

lemma stall_state_reached:
  "run 1 [Op_enable None, Op_new None, Op_Fiber_enable 1, Op_init 2 ''PROMISE'' 1 1 None,
          Op_fiberWatchdog 1 None, Op_Fiber_disable 1] init_sys = Some stall_state"
  by (simp add: stall_state_def run_defs)

lemma aborted_state_reached:
  "run 1 [Env_abort 0 (Reason 7), Op_enable None, Op_new None, Op_Fiber_enable 1,
          Op_init 2 ''PROMISE'' 1 1 None, Op_fiberWatchdog 1 (Some 0), Op_Fiber_disable 1]
     init_sys = Some aborted_state"
  by (simp add: aborted_state_def stall_state_def run_defs)

text \<open>
  The first scenario of the tests: the root context creates a promise (asyncId 2), then
  \<open>fiber\<close> runs a function that creates a promise (asyncId 3) triggered by it. In
  fiberWatchdog the ownership check of the new promise runs in \<open>ownership_state\<close>,
  and rejects the wrapped result with PARENT_ASYNC_TRIGGER.
\<close>

lemma ownership_state_reached:
  "run 1 [Op_enable None, Op_init 2 ''PROMISE'' 1 1 None, Op_new None, Op_Fiber_enable 1,
          Op_init 3 ''PROMISE'' 2 2 None, Op_fiberWatchdog 1 None] init_sys =
     Some (pending_add 0 2 (snd (assertFiberOwnership 0 2 ownership_state)))"
  by (simp add: ownership_state_def run_defs)

text \<open>
  A fiber that goes on after one suspension: the root context creates a promise
  (asyncId 2); \<open>fiber\<close> runs a function that schedules an immediate (asyncId 3); the
  runtime enters the immediate's callback, which awaits the root's promise (the new
  promise has asyncId 4).
\<close>

lemma suspended_state_reached:
  "run 2 [Op_enable None, Op_init 2 ''PROMISE'' 1 1 None, Op_new None, Op_Fiber_enable 1,
          Op_init 3 ''Immediate'' 1 2 None, Op_fiberWatchdog 1 None, Op_Fiber_disable 1,
          Env_context 2 3, Op_before 3] init_sys = Some suspended_state"
  by (simp add: suspended_state_def scenario_defs)

lemma faulted_state_reached:
  "run 2 [Op_init 4 ''PROMISE'' 2 3 None] suspended_state = Some faulted_state"
  by (simp add: faulted_state_def suspended_state_def scenario_defs)

text \<open>
  Two fibers on the root context with a signal each; the first signal is aborted, the
  first fiber's immediate runs and creates a promise, then the second signal is aborted.
\<close>

lemma retaint_state_reached:
  "run 2 [Op_enable None,
          Op_new None, Op_Fiber_enable 1, Op_init 2 ''Immediate'' 1 1 None,
          Op_fiberWatchdog 1 (Some 0), Op_Fiber_disable 1,
          Op_new None, Op_Fiber_enable 2, Op_fiberWatchdog 2 (Some 1), Op_Fiber_disable 2,
          Env_abort 0 (Reason 7), Op_abort_listener 0,
          Env_context 1 2, Op_before 2, Op_init 3 ''PROMISE'' 2 2 None,
          Env_abort 1 (Reason 8)] init_sys = Some retaint_state"
  by (simp add: retaint_state_def scenario_defs)

end
